theory Spec2Isabelle
  imports Main "HOL-Library.Word"
begin

unbundle bit_operations_syntax


section \<open>Role-based access control (server/src/middleware/rbac.ts)\<close>

text \<open>
  The four role names and the five permission names are string constants of the
  source. \<open>Object.values(permissions)\<close> lists the permission strings in the order
  in which the object literal declares them.
\<close>

definition ADMIN :: string where "ADMIN = ''admin''"
definition DOCTOR :: string where "DOCTOR = ''doctor''"
definition NURSE :: string where "NURSE = ''nurse''"
definition PATIENT :: string where "PATIENT = ''patient''"

definition READ_PATIENT :: string where "READ_PATIENT = ''read:patient''"
definition WRITE_PATIENT :: string where "WRITE_PATIENT = ''write:patient''"
definition READ_RECORD :: string where "READ_RECORD = ''read:record''"
definition WRITE_RECORD :: string where "WRITE_RECORD = ''write:record''"
definition MANAGE_USERS :: string where "MANAGE_USERS = ''manage:users''"

definition permission_values :: "string list" where
  "permission_values =
     [READ_PATIENT, WRITE_PATIENT, READ_RECORD, WRITE_RECORD, MANAGE_USERS]"

text \<open>
  \<open>rolePermissions\<close> is an object literal: its own properties, in source order.
\<close>

definition rolePermissions :: "(string \<times> string list) list" where
  "rolePermissions =
     [(ADMIN, permission_values),
      (DOCTOR, [READ_PATIENT, WRITE_PATIENT, READ_RECORD, WRITE_RECORD]),
      (NURSE, [READ_PATIENT, READ_RECORD, WRITE_RECORD]),
      (PATIENT, [READ_RECORD])]"

text \<open>
  Reading \<open>obj[key]\<close> on an object literal finds an own property first and then
  walks to \<open>Object.prototype\<close>, whose members (functions, and the prototype object
  itself under \<open>__proto__\<close>) are neither \<open>undefined\<close> nor arrays. Any other key
  reads as \<open>undefined\<close>.
\<close>

datatype js_value = JSUndefined | JSArray "string list" | JSInherited

definition object_prototype_keys :: "string list" where
  "object_prototype_keys =
     [''constructor'', ''__proto__'', ''hasOwnProperty'', ''isPrototypeOf'',
      ''propertyIsEnumerable'', ''toLocaleString'', ''toString'', ''valueOf'',
      ''__defineGetter__'', ''__defineSetter__'', ''__lookupGetter__'',
      ''__lookupSetter__'']"

definition get_property :: "(string \<times> string list) list \<Rightarrow> string \<Rightarrow> js_value" where
  "get_property obj k =
     (case map_of obj k of
        Some v \<Rightarrow> JSArray v
      | None \<Rightarrow> if k \<in> set object_prototype_keys then JSInherited else JSUndefined)"

text \<open>
  The request carries the decoded token as \<open>req.user\<close>; a token without a
  \<open>role\<close> member gives \<open>undefined\<close>, which as a property key is the string
  \<open>undefined\<close>.
\<close>

record principal =
  role :: "string option"

record request =
  user :: principal

definition property_key :: "string option \<Rightarrow> string" where
  "property_key r = (case r of None \<Rightarrow> ''undefined'' | Some s \<Rightarrow> s)"

text \<open>
  The middleware either calls \<open>next()\<close>, answers 403 with
  \<open>Insufficient permissions\<close>, or throws: \<open>x?.includes(p)\<close> is \<open>undefined\<close>
  when \<open>x\<close> is \<open>undefined\<close>, the array's membership test when \<open>x\<close> is an
  array, and a \<open>TypeError\<close> when \<open>x\<close> is any other value, since its
  \<open>includes\<close> member is not a function.
\<close>

datatype outcome = Next | Forbidden | ThrewTypeError

definition checkPermission :: "string \<Rightarrow> request \<Rightarrow> outcome" where
  "checkPermission permission req =
     (let userRole = role (user req) in
      case get_property rolePermissions (property_key userRole) of
        JSUndefined \<Rightarrow> Forbidden
      | JSArray ps \<Rightarrow> if \<not> (permission \<in> set ps) then Forbidden else Next
      | JSInherited \<Rightarrow> ThrewTypeError)"

text \<open>The gate as a decision: the request is admitted when \<open>next()\<close> is called.\<close>

definition authorize :: "principal \<Rightarrow> string \<Rightarrow> bool" where
  "authorize p permission = (checkPermission permission \<lparr>user = p\<rparr> = Next)"

definition with_role :: "string \<Rightarrow> principal" where
  "with_role r = \<lparr>role = Some r\<rparr>"


section \<open>Platform: buffers, strings, base64 and UTF-8\<close>

type_synonym byte = "8 word"

type_synonym buffer = "byte list"

type_synonym js_string = "16 word list"

text \<open>
  Base64 of the platform: three bytes become four characters of the alphabet
  \<open>A-Z a-z 0-9 + /\<close>, and a last group of one or two bytes is padded with
  \<open>=\<close> (character 61). The functions work on character codes and byte values.
\<close>

definition b64_char :: "nat \<Rightarrow> nat" where
  "b64_char n =
     (if n < 26 then 65 + n
      else if n < 52 then 71 + n
      else if n < 62 then n - 4
      else if n = 62 then 43 else 47)"

definition unbase64 :: "nat \<Rightarrow> nat option" where
  "unbase64 n =
     (if 65 \<le> n \<and> n \<le> 90 then Some (n - 65)
      else if 97 \<le> n \<and> n \<le> 122 then Some (n - 71)
      else if 48 \<le> n \<and> n \<le> 57 then Some (n + 4)
      else if n = 43 \<or> n = 45 then Some 62
      else if n = 47 \<or> n = 95 then Some 63
      else None)"

fun b64_groups :: "nat list \<Rightarrow> nat list" where
  "b64_groups (a # b # c # r) =
     map b64_char [a div 4, (a mod 4) * 16 + b div 16, (b mod 16) * 4 + c div 64, c mod 64]
     @ b64_groups r"
| "b64_groups [a, b] =
     map b64_char [a div 4, (a mod 4) * 16 + b div 16, (b mod 16) * 4] @ [61]"
| "b64_groups [a] = map b64_char [a div 4, (a mod 4) * 16] @ [61, 61]"
| "b64_groups [] = []"

fun sextets_to_bytes :: "nat list \<Rightarrow> nat list" where
  "sextets_to_bytes (a # b # c # d # r) =
     [a * 4 + b div 16, (b mod 16) * 16 + c div 4, (c mod 4) * 64 + d] @ sextets_to_bytes r"
| "sextets_to_bytes [a, b, c] = [a * 4 + b div 16, (b mod 16) * 16 + c div 4]"
| "sextets_to_bytes [a, b] = [a * 4 + b div 16]"
| "sextets_to_bytes [a] = []"
| "sextets_to_bytes [] = []"

definition b64_sextets :: "nat list \<Rightarrow> nat list" where
  "b64_sextets cs = List.map_filter unbase64 (takeWhile (\<lambda>c. c \<noteq> 61) cs)"

definition base64_encode :: "buffer \<Rightarrow> js_string" where
  "base64_encode buf = map of_nat (b64_groups (map unat buf))"

definition base64_decode :: "js_string \<Rightarrow> buffer" where
  "base64_decode s =
     map of_nat (sextets_to_bytes (b64_sextets (map (\<lambda>c. unat c mod 256) s)))"

text \<open>
  UTF-8 of the platform, on UTF-16 code units and byte values: one byte below U+0080,
  two below U+0800, three for the rest of the basic plane, four for a surrogate
  pair, and U+FFFD (239, 191, 189) for a surrogate without its partner. The decoder
  reads one sequence at a time and writes U+FFFD (65533) for a byte or a truncated
  sequence that is not UTF-8.
\<close>

fun utf8_units :: "nat list \<Rightarrow> nat list" where
  "utf8_units [] = []"
| "utf8_units (u # us) =
     (if u < 128 then u # utf8_units us
      else if u < 2048 then (192 + u div 64) # (128 + u mod 64) # utf8_units us
      else if 55296 \<le> u \<and> u < 56320 then
        (case us of
           [] \<Rightarrow> [239, 191, 189]
         | v # vs \<Rightarrow>
             if 56320 \<le> v \<and> v < 57344 then
               (let cp = 65536 + (u - 55296) * 1024 + (v - 56320) in
                (240 + cp div 262144) # (128 + (cp div 4096) mod 64)
                # (128 + (cp div 64) mod 64) # (128 + cp mod 64) # utf8_units vs)
             else 239 # 191 # 189 # utf8_units us)
      else if 56320 \<le> u \<and> u < 57344 then 239 # 191 # 189 # utf8_units us
      else (224 + u div 4096) # (128 + (u div 64) mod 64) # (128 + u mod 64) # utf8_units us)"

definition continuation :: "nat \<Rightarrow> bool" where
  "continuation b = (128 \<le> b \<and> b \<le> 191)"

definition second_ok :: "nat \<Rightarrow> nat \<Rightarrow> bool" where
  "second_ok b0 b1 =
     ((if b0 = 224 then 160 else if b0 = 240 then 144 else 128) \<le> b1
      \<and> b1 \<le> (if b0 = 237 then 159 else if b0 = 244 then 143 else 191))"

definition utf8_step :: "nat \<Rightarrow> nat list \<Rightarrow> nat list \<times> nat" where
  "utf8_step b0 r =
     (if b0 < 128 then ([b0], 0)
      else if 194 \<le> b0 \<and> b0 \<le> 223 then
        (case r of
           [] \<Rightarrow> ([65533], 0)
         | b1 # r1 \<Rightarrow>
             if continuation b1 then ([(b0 - 192) * 64 + (b1 - 128)], 1) else ([65533], 0))
      else if 224 \<le> b0 \<and> b0 \<le> 239 then
        (case r of
           [] \<Rightarrow> ([65533], 0)
         | b1 # r1 \<Rightarrow>
             if \<not> second_ok b0 b1 then ([65533], 0)
             else
               (case r1 of
                  [] \<Rightarrow> ([65533], 1)
                | b2 # r2 \<Rightarrow>
                    if continuation b2 then
                      ([(b0 - 224) * 4096 + (b1 - 128) * 64 + (b2 - 128)], 2)
                    else ([65533], 1)))
      else if 240 \<le> b0 \<and> b0 \<le> 244 then
        (case r of
           [] \<Rightarrow> ([65533], 0)
         | b1 # r1 \<Rightarrow>
             if \<not> second_ok b0 b1 then ([65533], 0)
             else
               (case r1 of
                  [] \<Rightarrow> ([65533], 1)
                | b2 # r2 \<Rightarrow>
                    if \<not> continuation b2 then ([65533], 1)
                    else
                      (case r2 of
                         [] \<Rightarrow> ([65533], 2)
                       | b3 # r3 \<Rightarrow>
                           if continuation b3 then
                             (let cp = (b0 - 240) * 262144 + (b1 - 128) * 4096
                                       + (b2 - 128) * 64 + (b3 - 128) in
                              ([55296 + (cp - 65536) div 1024,
                                56320 + (cp - 65536) mod 1024], 3))
                           else ([65533], 2))))
      else ([65533], 0))"

function utf8_decode_units :: "nat list \<Rightarrow> nat list" where
  "utf8_decode_units [] = []"
| "utf8_decode_units (b0 # r) =
     (case utf8_step b0 r of (out, k) \<Rightarrow> out @ utf8_decode_units (drop k r))"
  by pat_completeness auto
termination
  by (relation "measure length") auto

fun well_formed_units :: "nat list \<Rightarrow> bool" where
  "well_formed_units [] = True"
| "well_formed_units (u # us) =
     (if 55296 \<le> u \<and> u < 56320 then
        (case us of [] \<Rightarrow> False
         | v # vs \<Rightarrow> 56320 \<le> v \<and> v < 57344 \<and> well_formed_units vs)
      else if 56320 \<le> u \<and> u < 57344 then False
      else well_formed_units us)"

section \<open>Field encryption (server/src/utils/encryption.ts)\<close>

text \<open>
  A JavaScript string is a sequence of UTF-16 code units and a \<open>Buffer\<close> is a
  sequence of bytes. \<open>base64_encode\<close> and \<open>base64_decode\<close> above are
  \<open>buf.toString('base64')\<close> and \<open>Buffer.from(s, 'base64')\<close>: the decoder reads the
  low byte of each code unit, skips characters outside the alphabet, accepts the
  URL-safe \<open>-\<close> and \<open>_\<close>, and stops at the first \<open>=\<close>. \<open>utf8_units\<close> is the platform's UTF-8 encoder, which writes
  U+FFFD (EF BF BD) for a surrogate without its partner, and
  \<open>utf8_decode_units\<close> its decoder, which writes U+FFFD for every ill-formed
  sequence.
\<close>

definition utf8_encode :: "js_string \<Rightarrow> buffer" where
  "utf8_encode s = map of_nat (utf8_units (map unat s))"

definition utf8_decode :: "buffer \<Rightarrow> js_string" where
  "utf8_decode buf = map of_nat (utf8_decode_units (map unat buf))"

definition well_formed :: "js_string \<Rightarrow> bool" where
  "well_formed s = well_formed_units (map unat s)"

definition ALGORITHM :: string where "ALGORITHM = ''aes-256-gcm''"
definition IV_LENGTH :: nat where "IV_LENGTH = 16"
definition SALT_LENGTH :: nat where "SALT_LENGTH = 64"
definition TAG_LENGTH :: nat where "TAG_LENGTH = 16"
definition KEY_LENGTH :: nat where "KEY_LENGTH = 32"
definition ITERATIONS :: nat where "ITERATIONS = 100000"

text \<open>
  The operating system's entropy is a stream of bytes; \<open>crypto.randomBytes(n)\<close>
  takes the next \<open>n\<close> of them and leaves the rest for the next call.
\<close>

type_synonym entropy = "nat \<Rightarrow> byte"

definition randomBytes :: "nat \<Rightarrow> entropy \<Rightarrow> buffer \<times> entropy" where
  "randomBytes n rnd = (map rnd [0..<n], \<lambda>i. rnd (n + i))"

text \<open>
  The mathematics of the primitives stays a parameter: the PBKDF2-HMAC-SHA512 output
  stream for a password, a salt and an iteration count, the AES-256 counter-mode
  key stream for a key and an initialisation vector, and the GCM tag of a ciphertext
  under a key and an initialisation vector, each read byte by byte.
\<close>

record primitives =
  pbkdf2_sha512 :: "buffer \<Rightarrow> buffer \<Rightarrow> nat \<Rightarrow> nat \<Rightarrow> byte"
  aes256_ctr :: "buffer \<Rightarrow> buffer \<Rightarrow> nat \<Rightarrow> byte"
  gcm_tag :: "buffer \<Rightarrow> buffer \<Rightarrow> buffer \<Rightarrow> nat \<Rightarrow> byte"

text \<open>
  What the \<open>crypto\<close> module throws: \<open>pbkdf2\<close> rejects an iteration count below 1
  and sizes beyond 31 bits; \<open>createCipheriv\<close> and \<open>createDecipheriv\<close> reject an
  empty initialisation vector (any other length is accepted in GCM mode) and a key
  that is not 32 bytes; \<open>setAuthTag\<close> rejects a tag whose length is not 4, 8 or
  12 to 16 bytes; \<open>final\<close> rejects a tag that differs from the leading bytes of
  the computed one (\<open>Unsupported state or unable to authenticate data\<close>, the
  failure the specification calls \<open>IntegrityError\<close>).
\<close>

datatype crypto_error =
  InvalidArgValue | InvalidKeyLength | InvalidIV | InvalidAuthTag | AuthenticationFailed

definition pbkdf2 ::
  "primitives \<Rightarrow> js_string \<Rightarrow> buffer \<Rightarrow> nat \<Rightarrow> nat \<Rightarrow> crypto_error + buffer" where
  "pbkdf2 P password salt iterations keylen =
     (if iterations < 1 \<or> 2 ^ 31 \<le> iterations \<or> 2 ^ 31 \<le> keylen then Inl InvalidArgValue
      else Inr (map (pbkdf2_sha512 P (utf8_encode password) salt iterations) [0..<keylen]))"

definition check_cipher_args :: "buffer \<Rightarrow> buffer \<Rightarrow> crypto_error option" where
  "check_cipher_args key iv =
     (if iv = [] then Some InvalidIV
      else if length key \<noteq> 32 then Some InvalidKeyLength
      else None)"

definition keystream_xor :: "primitives \<Rightarrow> buffer \<Rightarrow> buffer \<Rightarrow> buffer \<Rightarrow> buffer" where
  "keystream_xor P key iv data =
     map (\<lambda>(i, b). b XOR aes256_ctr P key iv i) (zip [0..<length data] data)"

definition tag_of :: "primitives \<Rightarrow> buffer \<Rightarrow> buffer \<Rightarrow> buffer \<Rightarrow> buffer" where
  "tag_of P key iv ciphertext = map (gcm_tag P key iv ciphertext) [0..<16]"

text \<open>
  \<open>createCipheriv\<close>, \<open>update\<close>, \<open>final\<close> and \<open>getAuthTag\<close> in a row: the
  ciphertext and the 16-byte tag.
\<close>

definition gcm_encrypt ::
  "primitives \<Rightarrow> buffer \<Rightarrow> buffer \<Rightarrow> buffer \<Rightarrow> crypto_error + (buffer \<times> buffer)" where
  "gcm_encrypt P key iv plaintext =
     (case check_cipher_args key iv of
        Some e \<Rightarrow> Inl e
      | None \<Rightarrow>
          (let encrypted = keystream_xor P key iv plaintext
           in Inr (encrypted, tag_of P key iv encrypted)))"

definition valid_tag_length :: "nat \<Rightarrow> bool" where
  "valid_tag_length n = (n = 4 \<or> n = 8 \<or> (12 \<le> n \<and> n \<le> 16))"

text \<open>
  \<open>createDecipheriv\<close>, \<open>setAuthTag\<close>, \<open>update\<close> and \<open>final\<close> in a row. The
  bytes that \<open>update\<close> returns are dropped when \<open>final\<close> throws, because the
  source adds the two results in one expression.
\<close>

definition gcm_decrypt ::
  "primitives \<Rightarrow> buffer \<Rightarrow> buffer \<Rightarrow> buffer \<Rightarrow> buffer \<Rightarrow> crypto_error + buffer" where
  "gcm_decrypt P key iv tag encrypted =
     (case check_cipher_args key iv of
        Some e \<Rightarrow> Inl e
      | None \<Rightarrow>
          if \<not> valid_tag_length (length tag) then Inl InvalidAuthTag
          else
            (let plaintext = keystream_xor P key iv encrypted
             in if take (length tag) (tag_of P key iv encrypted) = tag then Inr plaintext
                else Inl AuthenticationFailed))"

text \<open>\<open>deriveKey\<close>: the promise rejects with the error of \<open>pbkdf2\<close> and resolves
  with its key otherwise.\<close>

definition deriveKey :: "primitives \<Rightarrow> js_string \<Rightarrow> buffer \<Rightarrow> crypto_error + buffer" where
  "deriveKey P key salt =
     (case pbkdf2 P key salt ITERATIONS KEY_LENGTH of
        Inl err \<Rightarrow> Inl err
      | Inr derivedKey \<Rightarrow> Inr derivedKey)"

text \<open>\<open>Encryption.encrypt\<close>: the envelope string and the entropy left over.\<close>

definition encrypt ::
  "primitives \<Rightarrow> js_string \<Rightarrow> js_string \<Rightarrow> entropy \<Rightarrow> crypto_error + (js_string \<times> entropy)"
  where
  "encrypt P text key rnd =
     (let (iv, rnd1) = randomBytes IV_LENGTH rnd;
          (salt, rnd2) = randomBytes SALT_LENGTH rnd1
      in case deriveKey P key salt of
           Inl e \<Rightarrow> Inl e
         | Inr derivedKey \<Rightarrow>
             (case gcm_encrypt P derivedKey iv (utf8_encode text) of
                Inl e \<Rightarrow> Inl e
              | Inr (encrypted, tag) \<Rightarrow>
                  Inr (base64_encode (salt @ iv @ tag @ encrypted), rnd2)))"

text \<open>\<open>buf.slice(start, end)\<close> clamps both ends to the buffer.\<close>

definition slice :: "buffer \<Rightarrow> nat \<Rightarrow> nat \<Rightarrow> buffer" where
  "slice buf start end = take (end - start) (drop start buf)"

definition slice_from :: "buffer \<Rightarrow> nat \<Rightarrow> buffer" where
  "slice_from buf start = drop start buf"

text \<open>The four slices that \<open>Encryption.decrypt\<close> takes: salt, iv, tag, encrypted.\<close>

definition envelope_segments :: "buffer \<Rightarrow> buffer \<times> buffer \<times> buffer \<times> buffer" where
  "envelope_segments buffer =
     (slice buffer 0 SALT_LENGTH,
      slice buffer SALT_LENGTH (SALT_LENGTH + IV_LENGTH),
      slice buffer (SALT_LENGTH + IV_LENGTH) (SALT_LENGTH + IV_LENGTH + TAG_LENGTH),
      slice_from buffer (SALT_LENGTH + IV_LENGTH + TAG_LENGTH))"

text \<open>
  \<open>Encryption.decrypt\<close>. \<open>decipher.update(encrypted)\<close> is a \<open>Buffer\<close>, which
  \<open>+\<close> turns into a string by UTF-8 decoding; \<open>final\<close> adds nothing in GCM mode.
\<close>

definition decrypt :: "primitives \<Rightarrow> js_string \<Rightarrow> js_string \<Rightarrow> crypto_error + js_string" where
  "decrypt P encryptedText key =
     (let buffer = base64_decode encryptedText;
          (salt, iv, tag, encrypted) = envelope_segments buffer
      in case deriveKey P key salt of
           Inl e \<Rightarrow> Inl e
         | Inr derivedKey \<Rightarrow>
             (case gcm_decrypt P derivedKey iv tag encrypted of
                Inl e \<Rightarrow> Inl e
              | Inr plaintext \<Rightarrow> Inr (utf8_decode plaintext)))"

text \<open>
  What one call of \<open>encrypt\<close> draws and computes on the way: the salt, the
  initialisation vector, the derived key, the ciphertext and the tag.
\<close>

definition drawn_iv :: "entropy \<Rightarrow> buffer" where
  "drawn_iv rnd = fst (randomBytes IV_LENGTH rnd)"

definition drawn_salt :: "entropy \<Rightarrow> buffer" where
  "drawn_salt rnd = fst (randomBytes SALT_LENGTH (snd (randomBytes IV_LENGTH rnd)))"

definition entropy_after :: "entropy \<Rightarrow> entropy" where
  "entropy_after rnd = snd (randomBytes SALT_LENGTH (snd (randomBytes IV_LENGTH rnd)))"

definition derived :: "primitives \<Rightarrow> js_string \<Rightarrow> entropy \<Rightarrow> buffer" where
  "derived P key rnd =
     map (pbkdf2_sha512 P (utf8_encode key) (drawn_salt rnd) ITERATIONS) [0..<KEY_LENGTH]"

definition sealed :: "primitives \<Rightarrow> js_string \<Rightarrow> js_string \<Rightarrow> entropy \<Rightarrow> buffer" where
  "sealed P text key rnd =
     keystream_xor P (derived P key rnd) (drawn_iv rnd) (utf8_encode text)"

definition sealed_tag :: "primitives \<Rightarrow> js_string \<Rightarrow> js_string \<Rightarrow> entropy \<Rightarrow> buffer" where
  "sealed_tag P text key rnd =
     tag_of P (derived P key rnd) (drawn_iv rnd) (sealed P text key rnd)"

definition envelope_bytes :: "primitives \<Rightarrow> js_string \<Rightarrow> js_string \<Rightarrow> entropy \<Rightarrow> buffer" where
  "envelope_bytes P text key rnd =
     drawn_salt rnd @ drawn_iv rnd @ sealed_tag P text key rnd @ sealed P text key rnd"

text \<open>\<open>decrypt(encrypt(text, key), key)\<close>, the composition the round trip is about.\<close>

definition encrypt_then_decrypt ::
  "primitives \<Rightarrow> js_string \<Rightarrow> js_string \<Rightarrow> entropy \<Rightarrow> crypto_error + js_string" where
  "encrypt_then_decrypt P text key rnd =
     (case encrypt P text key rnd of
        Inl e \<Rightarrow> Inl e
      | Inr (envelope, rnd') \<Rightarrow> decrypt P envelope key)"

text \<open>
  A small instance of the primitives and of the entropy, on which the definitions
  can be evaluated, and ASCII text as a JavaScript string.
\<close>

definition sample_primitives :: primitives where
  "sample_primitives =
     \<lparr>pbkdf2_sha512 = (\<lambda>password salt iterations i. of_nat (length password + i)),
      aes256_ctr = (\<lambda>key iv i. of_nat (7 * i + 3)),
      gcm_tag = (\<lambda>key iv c i. (if i < length c then c ! i else 0) + of_nat i)\<rparr>"

definition sample_entropy :: entropy where
  "sample_entropy i = of_nat i"

definition ascii :: "string \<Rightarrow> js_string" where
  "ascii s = map (\<lambda>c. of_nat (of_char c)) s"

section \<open>Patient records (server/src/models/Patient.ts)\<close>

text \<open>
  The argument \<open>patient\<close> has type \<open>any\<close>: an object whose own properties hold
  JSON data. A value is \<open>undefined\<close>, a string, or another JSON value (null, a
  boolean, a number, an array, an object), of a type \<open>'v\<close> that is left open.
  Reading a property that the object does not have gives \<open>undefined\<close>.
\<close>

datatype 'v js_data = Undefined | String js_string | Other 'v

type_synonym 'v js_object = "string \<rightharpoonup> 'v js_data"

definition get :: "'v js_object \<Rightarrow> string \<Rightarrow> 'v js_data" where
  "get obj k = (case obj k of None \<Rightarrow> Undefined | Some v \<Rightarrow> v)"

text \<open>
  What the platform does with JSON data stays a parameter: the text that
  \<open>JSON.stringify\<close> writes for a value other than \<open>undefined\<close>, the value that
  \<open>JSON.parse\<close> reads from a text (\<open>None\<close> when it throws a \<open>SyntaxError\<close>),
  and what \<open>Buffer.from(v, 'base64')\<close> makes of a value that is not a string (it
  throws a \<open>TypeError\<close> for null, booleans and numbers and takes the bytes of an
  array).
\<close>

datatype js_error = Crypto crypto_error | InvalidArgType | JSONSyntaxError

record 'v json_api =
  json_text :: "'v js_data \<Rightarrow> js_string"
  json_parse :: "js_string \<Rightarrow> 'v js_data option"
  buffer_from :: "'v \<Rightarrow> js_error + buffer"

text \<open>\<open>JSON.stringify(undefined)\<close> is \<open>undefined\<close>, not a string.\<close>

definition JSON_stringify :: "'v json_api \<Rightarrow> 'v js_data \<Rightarrow> js_string option" where
  "JSON_stringify J v = (case v of Undefined \<Rightarrow> None | _ \<Rightarrow> Some (json_text J v))"

definition JSON_parse :: "'v json_api \<Rightarrow> js_string \<Rightarrow> js_error + 'v js_data" where
  "JSON_parse J t = (case json_parse J t of None \<Rightarrow> Inl JSONSyntaxError | Some v \<Rightarrow> Inr v)"

text \<open>
  \<open>Encryption.encrypt\<close> called with a value of type \<open>any\<close>: \<open>cipher.update\<close>
  throws a \<open>TypeError\<close> for data that is neither a string nor binary, after the
  random bytes are drawn and the key is derived.
\<close>

definition encrypt_any ::
  "primitives \<Rightarrow> js_string option \<Rightarrow> js_string \<Rightarrow> entropy \<Rightarrow> js_error + (js_string \<times> entropy)"
  where
  "encrypt_any P text key rnd =
     (case text of
        None \<Rightarrow> Inl InvalidArgType
      | Some t \<Rightarrow>
          (case encrypt P t key rnd of
             Inl e \<Rightarrow> Inl (Crypto e)
           | Inr r \<Rightarrow> Inr r))"

definition string_of :: "'v js_data \<Rightarrow> js_string option" where
  "string_of v = (case v of String s \<Rightarrow> Some s | _ \<Rightarrow> None)"

text \<open>
  \<open>Encryption.decrypt\<close> called with a value of type \<open>any\<close>: \<open>Buffer.from\<close>
  decodes a string, throws a \<open>TypeError\<close> for \<open>undefined\<close>, and does with another
  value what the platform says; the rest is \<open>decrypt\<close> on the bytes.
\<close>

definition decrypt_buffer :: "primitives \<Rightarrow> buffer \<Rightarrow> js_string \<Rightarrow> crypto_error + js_string" where
  "decrypt_buffer P buffer key =
     (let (salt, iv, tag, encrypted) = envelope_segments buffer
      in case deriveKey P key salt of
           Inl e \<Rightarrow> Inl e
         | Inr derivedKey \<Rightarrow>
             (case gcm_decrypt P derivedKey iv tag encrypted of
                Inl e \<Rightarrow> Inl e
              | Inr plaintext \<Rightarrow> Inr (utf8_decode plaintext)))"

definition decrypt_any ::
  "primitives \<Rightarrow> 'v json_api \<Rightarrow> 'v js_data \<Rightarrow> js_string \<Rightarrow> js_error + js_string" where
  "decrypt_any P J encryptedText key =
     (case encryptedText of
        Undefined \<Rightarrow> Inl InvalidArgType
      | String s \<Rightarrow>
          (case decrypt P s key of Inl e \<Rightarrow> Inl (Crypto e) | Inr t \<Rightarrow> Inr t)
      | Other v \<Rightarrow>
          (case buffer_from J v of
             Inl e \<Rightarrow> Inl e
           | Inr buffer \<Rightarrow>
               (case decrypt_buffer P buffer key of
                  Inl e \<Rightarrow> Inl (Crypto e)
                | Inr t \<Rightarrow> Inr t)))"

text \<open>
  \<open>Patient.encrypt\<close>: the spread copies the own properties, then \<open>ssn\<close> and
  \<open>medicalHistory\<close> are set, in this order of evaluation. \<open>ENCRYPTION_KEY\<close> is
  the value of the environment variable \<open>DATA_ENCRYPTION_KEY\<close>.
\<close>

definition Patient_encrypt ::
  "primitives \<Rightarrow> 'v json_api \<Rightarrow> js_string \<Rightarrow> 'v js_object \<Rightarrow> entropy
   \<Rightarrow> js_error + ('v js_object \<times> entropy)" where
  "Patient_encrypt P J ENCRYPTION_KEY patient rnd =
     (case encrypt_any P (string_of (get patient ''ssn'')) ENCRYPTION_KEY rnd of
        Inl e \<Rightarrow> Inl e
      | Inr (ssn, rnd1) \<Rightarrow>
          (case encrypt_any P (JSON_stringify J (get patient ''medicalHistory''))
                  ENCRYPTION_KEY rnd1 of
             Inl e \<Rightarrow> Inl e
           | Inr (medicalHistory, rnd2) \<Rightarrow>
               Inr (patient(''ssn'' \<mapsto> String ssn,
                            ''medicalHistory'' \<mapsto> String medicalHistory), rnd2)))"

text \<open>\<open>Patient.decrypt\<close>.\<close>

definition Patient_decrypt ::
  "primitives \<Rightarrow> 'v json_api \<Rightarrow> js_string \<Rightarrow> 'v js_object \<Rightarrow> js_error + 'v js_object" where
  "Patient_decrypt P J ENCRYPTION_KEY patient =
     (case decrypt_any P J (get patient ''ssn'') ENCRYPTION_KEY of
        Inl e \<Rightarrow> Inl e
      | Inr ssn \<Rightarrow>
          (case decrypt_any P J (get patient ''medicalHistory'') ENCRYPTION_KEY of
             Inl e \<Rightarrow> Inl e
           | Inr text \<Rightarrow>
               (case JSON_parse J text of
                  Inl e \<Rightarrow> Inl e
                | Inr medicalHistory \<Rightarrow>
                    Inr (patient(''ssn'' \<mapsto> String ssn,
                                 ''medicalHistory'' \<mapsto> medicalHistory)))))"

text \<open>
  A small instance of the JSON functions for evaluation, in which \<open>null\<close> is the
  only value besides strings and \<open>undefined\<close> and the only one that is used.
\<close>

definition sample_json :: "unit json_api" where
  "sample_json =
     \<lparr>json_text = (\<lambda>v. ascii ''null''),
      json_parse = (\<lambda>t. if t = ascii ''null'' then Some (Other ()) else None),
      buffer_from = (\<lambda>v. Inl InvalidArgType)\<rparr>"

definition sample_patient :: "unit js_object" where
  "sample_patient =
     [''firstName'' \<mapsto> String (ascii ''Ann''),
      ''ssn'' \<mapsto> String (ascii ''123-45-6789''),
      ''medicalHistory'' \<mapsto> Other ()]"

section \<open>Properties of the access policy gate\<close>

lemmas rbac_names =
  ADMIN_def DOCTOR_def NURSE_def PATIENT_def READ_PATIENT_def WRITE_PATIENT_def
  READ_RECORD_def WRITE_RECORD_def MANAGE_USERS_def permission_values_def

lemma own_key_not_inherited:
  "map_of rolePermissions k = Some ps \<Longrightarrow> k \<notin> set object_prototype_keys"
  by (auto simp: rolePermissions_def object_prototype_keys_def rbac_names
      split: if_splits)

lemma authorize_table:
  "authorize p permission \<longleftrightarrow>
     (\<exists>ps. map_of rolePermissions (property_key (role p)) = Some ps \<and> permission \<in> set ps)"
  by (auto simp: authorize_def checkPermission_def get_property_def Let_def
      split: option.splits if_splits)

text \<open>
  C3. The gate admits a principal for a permission exactly when the permission is in
  the list that the static table maps the principal's role to. For role \<open>admin\<close>
  it admits each of the five defined permissions; for role \<open>patient\<close> it admits
  \<open>read:record\<close> and nothing else, so \<open>write:record\<close> is refused.
\<close>

theorem authorize_iff_member:
  "(authorize p permission \<longleftrightarrow>
      (\<exists>ps. map_of rolePermissions (property_key (role p)) = Some ps \<and> permission \<in> set ps))
   \<and> list_all (authorize (with_role ADMIN)) permission_values
   \<and> (authorize (with_role PATIENT) permission \<longleftrightarrow> permission = ''read:record'')
   \<and> \<not> authorize (with_role PATIENT) ''write:record''
   \<and> authorize (with_role PATIENT) ''read:record''"
proof -
  have admin: "list_all (authorize (with_role ADMIN)) permission_values"
    by (simp add: authorize_table with_role_def property_key_def rolePermissions_def
        rbac_names)
  have patient: "authorize (with_role PATIENT) q \<longleftrightarrow> q = ''read:record''" for q
    by (simp add: authorize_table with_role_def property_key_def rolePermissions_def
        rbac_names)
  show ?thesis
    using admin patient authorize_table by simp
qed

text \<open>
  A role that is neither a key of the table nor a member name of
  \<open>Object.prototype\<close> is refused with 403 for every permission.
\<close>

lemma unknown_role_forbidden:
  "map_of rolePermissions r = None \<Longrightarrow> r \<notin> set object_prototype_keys \<Longrightarrow>
   checkPermission permission \<lparr>user = with_role r\<rparr> = Forbidden"
  by (simp add: checkPermission_def get_property_def with_role_def property_key_def
      Let_def)

text \<open>
  C9. The role \<open>constructor\<close> is not one of the four roles of the table, but the
  lookup finds the inherited \<open>Object.prototype.constructor\<close>, the optional chain
  does not stop, and the call of its missing \<open>includes\<close> throws: the check
  neither answers 403 nor calls \<open>next()\<close>.
\<close>

theorem checkPermission_constructor_throws:
  "map_of rolePermissions ''constructor'' = None
   \<and> checkPermission ''read:record'' \<lparr>user = with_role ''constructor''\<rparr> = ThrewTypeError"
  by (simp add: checkPermission_def get_property_def with_role_def property_key_def
      rolePermissions_def object_prototype_keys_def rbac_names Let_def)


section \<open>Base64 and UTF-8 decode what they encode\<close>

lemma sextet1_less: "a < 256 \<Longrightarrow> a div 4 < (64::nat)" by simp

lemma sextet2_less: "b < 256 \<Longrightarrow> (a mod 4) * 16 + b div 16 < (64::nat)"
proof -
  assume "b < 256"
  then have "b div 16 < 16" by simp
  moreover have "a mod 4 \<le> 3" by simp
  then have "(a mod 4) * 16 \<le> 48" by simp
  ultimately show ?thesis by simp
qed

lemma sextet3_less: "c < 256 \<Longrightarrow> (b mod 16) * 4 + c div 64 < (64::nat)"
proof -
  assume "c < 256"
  then have "c div 64 < 4" by simp
  moreover have "b mod 16 \<le> 15" by simp
  then have "(b mod 16) * 4 \<le> 60" by simp
  ultimately show ?thesis by simp
qed

lemma sextet3_pad_less: "(b mod 16) * 4 < (64::nat)"
proof -
  have "b mod 16 \<le> 15" by simp
  then have "(b mod 16) * 4 \<le> 60" by simp
  then show ?thesis by simp
qed

lemma sextet2_pad_less: "(a mod 4) * 16 < (64::nat)"
proof -
  have "a mod 4 \<le> 3" by simp
  then have "(a mod 4) * 16 \<le> 48" by simp
  then show ?thesis by simp
qed

lemma byte1_back: "(a div 4) * 4 + ((a mod 4) * 16 + b div 16) div 16 = (a::nat)" if "b < 256"
proof -
  have "b div 16 < 16" using that by simp
  then have "((a mod 4) * 16 + b div 16) div 16 = a mod 4" by simp
  then show ?thesis by simp
qed

lemma byte2_back:
  "(((a mod 4) * 16 + b div 16) mod 16) * 16 + ((b mod 16) * 4 + c div 64) div 4 = (b::nat)"
  if "b < 256" "c < 256"
proof -
  have "b div 16 < 16" using that by simp
  then have 1: "((a mod 4) * 16 + b div 16) mod 16 = b div 16" by simp
  have "c div 64 < 4" using that by simp
  then have 2: "((b mod 16) * 4 + c div 64) div 4 = b mod 16" by simp
  show ?thesis unfolding 1 2 by simp
qed

lemma byte3_back: "(((b mod 16) * 4 + c div 64) mod 4) * 64 + c mod 64 = (c::nat)" if "c < 256"
proof -
  have "c div 64 < 4" using that by simp
  then have 1: "((b mod 16) * 4 + c div 64) mod 4 = c div 64" by simp
  show ?thesis unfolding 1 by simp
qed

lemma byte2_pad_back: "(((a mod 4) * 16 + b div 16) mod 16) * 16 + ((b mod 16) * 4) div 4 = (b::nat)"
  if "b < 256"
proof -
  have "b div 16 < 16" using that by simp
  then have 1: "((a mod 4) * 16 + b div 16) mod 16 = b div 16" by simp
  show ?thesis unfolding 1 by simp
qed

lemma byte1_pad_back: "(a div 4) * 4 + ((a mod 4) * 16) div 16 = (a::nat)"
  by simp

lemma unbase64_b64_char: "n < 64 \<Longrightarrow> unbase64 (b64_char n) = Some n"
  unfolding unbase64_def b64_char_def by (simp; arith)

lemma b64_char_not_pad: "n < 64 \<Longrightarrow> b64_char n \<noteq> 61"
  unfolding b64_char_def by (simp; arith)

lemma b64_char_small: "b64_char n < 128"
  unfolding b64_char_def by (simp; arith)

lemma b64_sextets_Cons:
  "n < 64 \<Longrightarrow> b64_sextets (b64_char n # cs) = n # b64_sextets cs"
  by (simp add: b64_sextets_def b64_char_not_pad unbase64_b64_char List.map_filter_simps)

lemma b64_sextets_pad: "b64_sextets (61 # cs) = []"
  by (simp add: b64_sextets_def List.map_filter_simps)

lemma b64_sextets_Nil: "b64_sextets [] = []"
  by (simp add: b64_sextets_def List.map_filter_simps)

lemma group3:
  assumes "a < 256" "b < 256" "c < 256"
  shows "sextets_to_bytes
           (a div 4 # ((a mod 4) * 16 + b div 16) # ((b mod 16) * 4 + c div 64) # (c mod 64) # r)
         = a # b # c # sextets_to_bytes r"
  by (simp only: sextets_to_bytes.simps byte1_back [OF assms(2)] byte2_back [OF assms(2,3)]
      byte3_back [OF assms(3)] append.simps)

lemma group2:
  assumes "a < 256" "b < 256"
  shows "sextets_to_bytes [a div 4, (a mod 4) * 16 + b div 16, (b mod 16) * 4] = [a, b]"
  by (simp only: sextets_to_bytes.simps byte1_back [OF assms(2)] byte2_pad_back [OF assms(2)])

lemma group1: "sextets_to_bytes [a div 4, (a mod 4) * 16] = [a]"
  by (simp only: sextets_to_bytes.simps byte1_pad_back)

lemma sextets_roundtrip:
  "\<forall>x \<in> set ns. x < 256 \<Longrightarrow> sextets_to_bytes (b64_sextets (b64_groups ns)) = ns"
proof (induction ns rule: b64_groups.induct)
  case (1 a b c r)
  have a: "a < 256" and b: "b < 256" and c: "c < 256" using 1(2) by auto
  have r: "sextets_to_bytes (b64_sextets (b64_groups r)) = r" using 1 by simp
  have "b64_sextets (b64_groups (a # b # c # r)) =
          a div 4 # ((a mod 4) * 16 + b div 16) # ((b mod 16) * 4 + c div 64) # (c mod 64)
          # b64_sextets (b64_groups r)"
    by (simp only: b64_groups.simps list.map append.simps b64_sextets_Cons
        sextet1_less [OF a] sextet2_less [OF b] sextet3_less [OF c] mod_less_divisor zero_less_numeral)
  then show ?case by (simp only: group3 [OF a b c] r)
next
  case (2 a b)
  have a: "a < 256" and b: "b < 256" using 2 by auto
  have "b64_sextets (b64_groups [a, b]) = [a div 4, (a mod 4) * 16 + b div 16, (b mod 16) * 4]"
    by (simp only: b64_groups.simps list.map append.simps b64_sextets_Cons
        sextet1_less [OF a] sextet2_less [OF b] sextet3_pad_less b64_sextets_pad)
  then show ?case by (simp only: group2 [OF a b])
next
  case (3 a)
  have a: "a < 256" using 3 by auto
  have "b64_sextets (b64_groups [a]) = [a div 4, (a mod 4) * 16]"
    by (simp only: b64_groups.simps list.map append.simps b64_sextets_Cons
        sextet1_less [OF a] sextet2_pad_less b64_sextets_pad)
  then show ?case by (simp only: group1)
next
  case 4
  show ?case by (simp add: b64_sextets_Nil)
qed

lemma b64_groups_small: "c \<in> set (b64_groups ns) \<Longrightarrow> c < 128"
  by (induction ns rule: b64_groups.induct) (auto simp: b64_char_small)

lemma unat_of_nat_16: "n < 128 \<Longrightarrow> unat (of_nat n :: 16 word) mod 256 = n"
  by (simp add: unat_of_nat)

lemma base64_roundtrip: "base64_decode (base64_encode buf) = buf"
proof -
  let ?ns = "map unat buf"
  have "map (\<lambda>c. unat c mod 256) (map (of_nat :: nat \<Rightarrow> 16 word) (b64_groups ?ns))
        = b64_groups ?ns"
    by (simp add: map_idI b64_groups_small unat_of_nat_16)
  moreover have "\<forall>x \<in> set ?ns. x < 256"
  proof
    fix x assume "x \<in> set ?ns"
    then obtain w :: "8 word" where "x = unat w" by auto
    moreover have "unat w < 2 ^ LENGTH(8)" by (rule unsigned_less)
    ultimately show "x < 256" by simp
  qed
  ultimately show ?thesis
    by (simp add: base64_decode_def base64_encode_def sextets_roundtrip map_idI)
qed

lemma u2_lead: "128 \<le> u \<Longrightarrow> u < 2048 \<Longrightarrow> 194 \<le> 192 + u div 64 \<and> 192 + u div 64 \<le> (223::nat)"
proof -
  assume a: "128 \<le> u" "u < 2048"
  have "2 \<le> u div 64" using a(1) by (simp add: less_eq_div_iff_mult_less_eq)
  moreover have "u div 64 < 32" using a(2) by simp
  ultimately show ?thesis by simp
qed

lemma u2_val: "(192 + u div 64 - 192) * 64 + (128 + u mod 64 - 128) = (u::nat)"
  by simp

lemma u3_lead: "u < 65536 \<Longrightarrow> 224 + u div 4096 \<le> (239::nat)"
proof -
  assume "u < 65536"
  then have "u div 4096 < 16" by simp
  then show ?thesis by simp
qed

lemma u3_val:
  "(224 + u div 4096 - 224) * 4096 + (128 + (u div 64) mod 64 - 128) * 64 + (128 + u mod 64 - 128) = (u::nat)"
proof -
  have "u div 4096 = (u div 64) div 64" by (simp add: div_mult2_eq)
  then have "(u div 4096) * 64 + (u div 64) mod 64 = u div 64" by simp
  then have "((u div 4096) * 64 + (u div 64) mod 64) * 64 + u mod 64 = u" by simp
  then show ?thesis by (simp add: algebra_simps)
qed

lemma u3_E0: "2048 \<le> u \<Longrightarrow> u div 4096 = 0 \<Longrightarrow> 160 \<le> 128 + (u div 64) mod (64::nat)"
proof -
  assume a: "2048 \<le> u" "u div 4096 = 0"
  have "u < 4096" using a(2) by (simp add: div_eq_0_iff)
  then have "u div 64 < 64" by simp
  then have "(u div 64) mod 64 = u div 64" by simp
  moreover have "32 \<le> u div 64" using a(1) by (simp add: less_eq_div_iff_mult_less_eq)
  ultimately show ?thesis by simp
qed

lemma u3_ED: "u < 55296 \<Longrightarrow> u div 4096 = 13 \<Longrightarrow> 128 + (u div 64) mod (64::nat) \<le> 159"
proof -
  assume a: "u < 55296" "u div 4096 = 13"
  have "u div 64 < 864" using a(1) by simp
  moreover have "(u div 64) div 64 = 13" using a(2) by (simp add: div_mult2_eq)
  then have "u div 64 = 13 * 64 + (u div 64) mod 64"
    using div_mult_mod_eq [of "u div 64" 64] by simp
  ultimately show ?thesis by simp
qed

lemma u4_lead: "cp < 1114112 \<Longrightarrow> 240 + cp div 262144 \<le> (244::nat)"
proof -
  assume "cp < 1114112"
  then have "cp div 262144 < 5" by simp
  then show ?thesis by simp
qed

lemma u4_val:
  "(240 + cp div 262144 - 240) * 262144 + (128 + (cp div 4096) mod 64 - 128) * 4096
   + (128 + (cp div 64) mod 64 - 128) * 64 + (128 + cp mod 64 - 128) = (cp::nat)"
proof -
  have 1: "cp div 4096 = (cp div 64) div 64" by (simp add: div_mult2_eq)
  have 2: "cp div 262144 = (cp div 4096) div 64" by (simp add: div_mult2_eq)
  have "(cp div 262144) * 64 + (cp div 4096) mod 64 = cp div 4096" unfolding 2 by simp
  then have "((cp div 262144) * 64 + (cp div 4096) mod 64) * 64 + (cp div 64) mod 64 = cp div 64"
    unfolding 1 by simp
  then have "(((cp div 262144) * 64 + (cp div 4096) mod 64) * 64 + (cp div 64) mod 64) * 64
             + cp mod 64 = cp" by simp
  then show ?thesis by (simp add: algebra_simps)
qed

lemma u4_F0: "65536 \<le> cp \<Longrightarrow> cp div 262144 = 0 \<Longrightarrow> 144 \<le> 128 + (cp div 4096) mod (64::nat)"
proof -
  assume a: "65536 \<le> cp" "cp div 262144 = 0"
  have "cp < 262144" using a(2) by (simp add: div_eq_0_iff)
  then have "cp div 4096 < 64" by simp
  then have "(cp div 4096) mod 64 = cp div 4096" by simp
  moreover have "16 \<le> cp div 4096" using a(1) by (simp add: less_eq_div_iff_mult_less_eq)
  ultimately show ?thesis by simp
qed

lemma u4_F4: "cp < 1114112 \<Longrightarrow> cp div 262144 = 4 \<Longrightarrow> 128 + (cp div 4096) mod (64::nat) \<le> 143"
proof -
  assume a: "cp < 1114112" "cp div 262144 = 4"
  have "cp div 4096 < 272" using a(1) by simp
  moreover have "(cp div 4096) div 64 = 4" using a(2) by (simp add: div_mult2_eq)
  then have "cp div 4096 = 4 * 64 + (cp div 4096) mod 64"
    using div_mult_mod_eq [of "cp div 4096" 64] by simp
  ultimately show ?thesis by simp
qed

lemma surrogate_back:
  "lo < 1024 \<Longrightarrow> 55296 + (65536 + hi * 1024 + lo - 65536) div 1024 = 55296 + (hi::nat)
   \<and> 56320 + (65536 + hi * 1024 + lo - 65536) mod 1024 = 56320 + lo"
  by simp

lemma dec1: "u < 128 \<Longrightarrow> utf8_decode_units (u # r) = u # utf8_decode_units r"
  by (simp add: utf8_step_def)

lemma dec2:
  "194 \<le> b0 \<Longrightarrow> b0 \<le> 223 \<Longrightarrow> continuation b1 \<Longrightarrow>
   utf8_decode_units (b0 # b1 # r) = ((b0 - 192) * 64 + (b1 - 128)) # utf8_decode_units r"
  by (simp add: utf8_step_def)

lemma dec3:
  "224 \<le> b0 \<Longrightarrow> b0 \<le> 239 \<Longrightarrow> second_ok b0 b1 \<Longrightarrow> continuation b2 \<Longrightarrow>
   utf8_decode_units (b0 # b1 # b2 # r)
   = ((b0 - 224) * 4096 + (b1 - 128) * 64 + (b2 - 128)) # utf8_decode_units r"
  by (simp add: utf8_step_def)

lemma dec4:
  "240 \<le> b0 \<Longrightarrow> b0 \<le> 244 \<Longrightarrow> second_ok b0 b1 \<Longrightarrow> continuation b2 \<Longrightarrow> continuation b3 \<Longrightarrow>
   utf8_decode_units (b0 # b1 # b2 # b3 # r)
   = (55296 + ((b0 - 240) * 262144 + (b1 - 128) * 4096 + (b2 - 128) * 64 + (b3 - 128) - 65536) div 1024)
     # (56320 + ((b0 - 240) * 262144 + (b1 - 128) * 4096 + (b2 - 128) * 64 + (b3 - 128) - 65536) mod 1024)
     # utf8_decode_units r"
  by (simp add: utf8_step_def Let_def)

lemma cont_mod: "continuation (128 + x mod 64)"
proof -
  have "x mod 64 < 64" by simp
  then show ?thesis unfolding continuation_def by simp
qed

lemma second_ok3:
  assumes "2048 \<le> u" "u < 65536" "u < 55296 \<or> 57344 \<le> u"
  shows "second_ok (224 + u div 4096) (128 + (u div 64) mod 64)"
proof -
  have c: "128 \<le> 128 + (u div 64) mod 64" "128 + (u div 64) mod 64 \<le> 191"
    using cont_mod [of "u div 64"] by (simp_all add: continuation_def)
  have lo: "u div 4096 = 0 \<Longrightarrow> 160 \<le> 128 + (u div 64) mod 64"
    using u3_E0 [OF assms(1)] by simp
  have hi: "128 + (u div 64) mod 64 \<le> 159" if d: "u div 4096 = 13"
  proof (rule u3_ED [OF _ d])
    have "u < 57344"
    proof (rule ccontr)
      assume "\<not> u < 57344"
      then have "14 * 4096 \<le> u" by simp
      then have "14 \<le> u div 4096" by (simp add: less_eq_div_iff_mult_less_eq)
      then show False using d by simp
    qed
    then show "u < 55296" using assms(3) by simp
  qed
  have "u div 4096 < 16" using assms(2) by simp
  then show ?thesis
    unfolding second_ok_def using c lo hi by auto
qed

lemma rt2:
  assumes "128 \<le> u" "u < 2048"
  shows "utf8_decode_units ((192 + u div 64) # (128 + u mod 64) # r) = u # utf8_decode_units r"
proof -
  have l: "194 \<le> 192 + u div 64" "192 + u div 64 \<le> 223"
    using u2_lead [OF assms] by simp_all
  show ?thesis
    by (simp only: dec2 [OF l cont_mod] u2_val)
qed

lemma rt3:
  assumes "2048 \<le> u" "u < 65536" "u < 55296 \<or> 57344 \<le> u"
  shows "utf8_decode_units
           ((224 + u div 4096) # (128 + (u div 64) mod 64) # (128 + u mod 64) # r)
         = u # utf8_decode_units r"
proof -
  have l: "224 \<le> 224 + u div 4096" "224 + u div 4096 \<le> 239"
    using u3_lead [OF assms(2)] by simp_all
  show ?thesis
    by (simp only: dec3 [OF l second_ok3 [OF assms] cont_mod] u3_val)
qed

lemma second_ok4:
  assumes "65536 \<le> cp" "cp < 1114112"
  shows "second_ok (240 + cp div 262144) (128 + (cp div 4096) mod 64)"
proof -
  have c: "128 \<le> 128 + (cp div 4096) mod 64" "128 + (cp div 4096) mod 64 \<le> 191"
    using cont_mod [of "cp div 4096"] by (simp_all add: continuation_def)
  have lo: "cp div 262144 = 0 \<Longrightarrow> 144 \<le> 128 + (cp div 4096) mod 64"
    using u4_F0 [OF assms(1)] by simp
  have hi: "cp div 262144 = 4 \<Longrightarrow> 128 + (cp div 4096) mod 64 \<le> 143"
    using u4_F4 [OF assms(2)] by simp
  show ?thesis
    unfolding second_ok_def using c lo hi by auto
qed

lemma rt4:
  assumes "55296 \<le> u" "u < 56320" "56320 \<le> v" "v < 57344"
    and cp: "cp = 65536 + (u - 55296) * 1024 + (v - 56320)"
  shows "utf8_decode_units
           ((240 + cp div 262144) # (128 + (cp div 4096) mod 64)
            # (128 + (cp div 64) mod 64) # (128 + cp mod 64) # r)
         = u # v # utf8_decode_units r"
proof -
  have lo: "v - 56320 < 1024" using assms(3,4) by simp
  have "(u - 55296) * 1024 \<le> 1023 * 1024" using assms(2) by simp
  then have b: "65536 \<le> cp" "cp < 1114112" using cp lo by simp_all
  have l: "240 \<le> 240 + cp div 262144" "240 + cp div 262144 \<le> 244"
    using u4_lead [OF b(2)] by simp_all
  have sur: "55296 + (cp - 65536) div 1024 = u" "56320 + (cp - 65536) mod 1024 = v"
    using surrogate_back [OF lo, of "u - 55296"] assms(1,3) unfolding cp by simp_all
  show ?thesis
    by (simp only: dec4 [OF l second_ok4 [OF b] cont_mod cont_mod] u4_val sur)
qed

declare utf8_decode_units.simps(2) [simp del]

lemma utf8_units_roundtrip:
  "well_formed_units us \<Longrightarrow> \<forall>u \<in> set us. u < 65536 \<Longrightarrow>
   utf8_decode_units (utf8_units us) = us"
proof (induction us rule: utf8_units.induct)
  case 1
  show ?case by simp
next
  case (2 u us)
  have u: "u < 65536" and rest: "\<forall>x \<in> set us. x < 65536" using "2.prems"(2) by simp_all
  consider (a) "u < 128" | (b) "128 \<le> u" "u < 2048"
    | (c) "55296 \<le> u" "u < 56320" | (d) "56320 \<le> u" "u < 57344"
    | (e) "2048 \<le> u" "u < 55296 \<or> 57344 \<le> u"
    by linarith
  then show ?case
  proof cases
    case a
    then have "well_formed_units us" using "2.prems"(1) by simp
    then have "utf8_decode_units (utf8_units us) = us" using "2.IH"(1) a rest by simp
    then show ?thesis using a by (simp add: dec1)
  next
    case b
    then have "well_formed_units us" using "2.prems"(1) by simp
    then have "utf8_decode_units (utf8_units us) = us" using "2.IH"(2) b rest by simp
    then show ?thesis using b by (simp add: rt2)
  next
    case c
    then obtain v vs where us: "us = v # vs" and v: "56320 \<le> v" "v < 57344"
      and wf: "well_formed_units vs"
      using "2.prems"(1) by (cases us) auto
    have ih: "utf8_decode_units (utf8_units vs) = vs"
      using "2.IH"(3) [of v vs] c us v wf rest by simp
    define cp where "cp = 65536 + (u - 55296) * 1024 + (v - 56320)"
    have enc: "utf8_units (u # us) =
                 (240 + cp div 262144) # (128 + (cp div 4096) mod 64)
                 # (128 + (cp div 64) mod 64) # (128 + cp mod 64) # utf8_units vs"
      unfolding us cp_def using c v by (simp add: Let_def)
    show ?thesis
      unfolding enc by (simp only: rt4 [OF c v cp_def] ih us)
  next
    case d
    then show ?thesis using "2.prems"(1) by simp
  next
    case e
    then have "well_formed_units us" using "2.prems"(1) by auto
    moreover have n: "\<not> u < 128" "\<not> u < 2048" "\<not> (55296 \<le> u \<and> u < 56320)"
      "\<not> (56320 \<le> u \<and> u < 57344)"
      using e by auto
    ultimately have "utf8_decode_units (utf8_units us) = us"
      using "2.IH"(6) [OF n] rest by simp
    moreover have "utf8_units (u # us) =
        (224 + u div 4096) # (128 + (u div 64) mod 64) # (128 + u mod 64) # utf8_units us"
      using e by auto
    ultimately show ?thesis by (simp only: rt3 [OF e(1) u e(2)])
  qed
qed

lemma utf8_units_bytes:
  "\<forall>u \<in> set us. u < 65536 \<Longrightarrow> b \<in> set (utf8_units us) \<Longrightarrow> b < 256"
proof (induction us arbitrary: b rule: utf8_units.induct)
  case 1
  then show ?case by simp
next
  case (2 u us)
  have u: "u < 65536" and rest: "\<forall>x \<in> set us. x < 65536" using "2.prems"(1) by simp_all
  have m: "128 + x mod 64 < 256" for x :: nat
  proof -
    have "x mod 64 < 64" by simp
    then show ?thesis by simp
  qed
  consider (a) "u < 128" | (b) "128 \<le> u" "u < 2048"
    | (c) "55296 \<le> u" "u < 56320" | (d) "56320 \<le> u" "u < 57344"
    | (e) "2048 \<le> u" "u < 55296 \<or> 57344 \<le> u"
    by linarith
  then show ?case
  proof cases
    case a
    then show ?thesis using "2.prems"(2) "2.IH"(1) rest by auto
  next
    case b
    have "192 + u div 64 < 256" using u2_lead [OF b] by simp
    then show ?thesis using b m "2.prems"(2) "2.IH"(2) rest by auto
  next
    case c
    show ?thesis
    proof (cases us)
      case Nil
      then show ?thesis using c "2.prems"(2) by auto
    next
      case (Cons v vs)
      show ?thesis
      proof (cases "56320 \<le> v \<and> v < 57344")
        case True
        define cp where "cp = 65536 + (u - 55296) * 1024 + (v - 56320)"
        have "(u - 55296) * 1024 \<le> 1023 * 1024" using c by simp
        moreover have "v - 56320 < 1024" using True by linarith
        ultimately have "cp < 1114112" unfolding cp_def by simp
        then have l: "240 + cp div 262144 < 256" using u4_lead [of cp] by simp
        have enc: "utf8_units (u # us) =
                 (240 + cp div 262144) # (128 + (cp div 4096) mod 64)
                 # (128 + (cp div 64) mod 64) # (128 + cp mod 64) # utf8_units vs"
          unfolding Cons cp_def using c True by (simp add: Let_def)
        have "\<forall>x \<in> set vs. x < 65536" using rest Cons by simp
        then have "b \<in> set (utf8_units vs) \<Longrightarrow> b < 256"
          using "2.IH"(3) [of v vs] c Cons True by simp
        then show ?thesis using "2.prems"(2) l m unfolding enc by auto
      next
        case False
        have n: "\<not> u < 128" "\<not> u < 2048" using c by simp_all
        have "b \<in> set (utf8_units us) \<Longrightarrow> b < 256"
          using "2.IH"(4) [OF n _ Cons False] c rest by simp
        then show ?thesis using c Cons False "2.prems"(2) by auto
      qed
    qed
  next
    case d
    have n: "\<not> u < 128" "\<not> u < 2048" "\<not> (55296 \<le> u \<and> u < 56320)" using d by simp_all
    have "b \<in> set (utf8_units us) \<Longrightarrow> b < 256"
      using "2.IH"(5) [OF n] d rest by simp
    then show ?thesis using d "2.prems"(2) by auto
  next
    case e
    have n: "\<not> u < 128" "\<not> u < 2048" "\<not> (55296 \<le> u \<and> u < 56320)"
      "\<not> (56320 \<le> u \<and> u < 57344)"
      using e by auto
    have enc: "utf8_units (u # us) =
        (224 + u div 4096) # (128 + (u div 64) mod 64) # (128 + u mod 64) # utf8_units us"
      using e by auto
    have "224 + u div 4096 < 256" using u3_lead [OF u] by simp
    moreover have "b \<in> set (utf8_units us) \<Longrightarrow> b < 256"
      using "2.IH"(6) [OF n] rest by simp
    ultimately show ?thesis using "2.prems"(2) m unfolding enc by auto
  qed
qed

lemma unat_unit_less: "unat (u :: 16 word) < 65536"
  using unsigned_less [of u, where 'a = nat] by simp

lemma utf8_roundtrip: "well_formed s \<Longrightarrow> utf8_decode (utf8_encode s) = s"
proof -
  assume wf: "well_formed s"
  let ?us = "map unat s"
  have r: "\<forall>u \<in> set ?us. u < 65536" using unat_unit_less by auto
  have "map unat (map (of_nat :: nat \<Rightarrow> byte) (utf8_units ?us)) = utf8_units ?us"
    using utf8_units_bytes [OF r] by (simp add: map_idI unat_of_nat)
  then have "utf8_decode (utf8_encode s) = map of_nat (utf8_decode_units (utf8_units ?us))"
    by (simp add: utf8_decode_def utf8_encode_def)
  also have "\<dots> = map of_nat ?us"
    using utf8_units_roundtrip [OF _ r] wf by (simp add: well_formed_def)
  also have "\<dots> = s" by (simp add: map_idI)
  finally show ?thesis .
qed

section \<open>Properties of the field encryption\<close>

lemma unat_byte_less: "unat (b :: byte) < 256"
  using unsigned_less [of b, where 'a = nat] by simp

lemma encrypt_eq:
  "encrypt P text key rnd = Inr (base64_encode (envelope_bytes P text key rnd), entropy_after rnd)"
  by (simp add: encrypt_def envelope_bytes_def sealed_tag_def sealed_def derived_def
      drawn_salt_def drawn_iv_def entropy_after_def deriveKey_def pbkdf2_def gcm_encrypt_def
      check_cipher_args_def randomBytes_def ITERATIONS_def KEY_LENGTH_def IV_LENGTH_def
      SALT_LENGTH_def Let_def split: prod.splits)

lemma length_drawn [simp]:
  "length (drawn_salt rnd) = 64" "length (drawn_iv rnd) = 16"
  "length (sealed_tag P text key rnd) = 16" "length (derived P key rnd) = 32"
  "length (sealed P text key rnd) = length (utf8_encode text)"
  by (simp_all add: drawn_salt_def drawn_iv_def sealed_tag_def derived_def sealed_def
      randomBytes_def tag_of_def keystream_xor_def SALT_LENGTH_def IV_LENGTH_def
      KEY_LENGTH_def)

lemma segments_of_parts:
  "length salt = 64 \<Longrightarrow> length iv = 16 \<Longrightarrow> length tag = 16 \<Longrightarrow>
   envelope_segments (salt @ iv @ tag @ encrypted) = (salt, iv, tag, encrypted)"
  by (simp add: envelope_segments_def slice_def slice_from_def SALT_LENGTH_def
      IV_LENGTH_def TAG_LENGTH_def)

lemma segments_envelope_bytes:
  "envelope_segments (envelope_bytes P text key rnd)
   = (drawn_salt rnd, drawn_iv rnd, sealed_tag P text key rnd, sealed P text key rnd)"
  unfolding envelope_bytes_def by (rule segments_of_parts) simp_all

lemma keystream_xor_length [simp]: "length (keystream_xor P k iv d) = length d"
  by (simp add: keystream_xor_def)

lemma keystream_xor_nth:
  "i < length d \<Longrightarrow> keystream_xor P k iv d ! i = d ! i XOR aes256_ctr P k iv i"
  by (simp add: keystream_xor_def)

lemma keystream_xor_twice: "keystream_xor P k iv (keystream_xor P k iv d) = d"
  by (rule nth_equalityI) (simp_all add: keystream_xor_nth xor.assoc)

lemma deriveKey_drawn: "deriveKey P key (drawn_salt rnd) = Inr (derived P key rnd)"
  by (simp add: deriveKey_def pbkdf2_def derived_def ITERATIONS_def KEY_LENGTH_def)

lemma gcm_decrypt_sealed:
  "gcm_decrypt P (derived P key rnd) (drawn_iv rnd) (sealed_tag P text key rnd)
     (sealed P text key rnd) = Inr (utf8_encode text)"
proof -
  have iv: "drawn_iv rnd \<noteq> []"
    using length_drawn(2) [of rnd] by (cases "drawn_iv rnd") simp_all
  have t: "take 16 (tag_of P (derived P key rnd) (drawn_iv rnd) (sealed P text key rnd))
           = sealed_tag P text key rnd"
    by (simp add: sealed_tag_def tag_of_def)
  show ?thesis
    using iv t
    by (simp add: gcm_decrypt_def check_cipher_args_def valid_tag_length_def
        sealed_def [symmetric] Let_def)
       (simp add: sealed_def keystream_xor_twice)
qed

lemma decrypt_envelope:
  "decrypt P (base64_encode (envelope_bytes P text key rnd)) key
   = Inr (utf8_decode (utf8_encode text))"
  by (simp add: decrypt_def base64_roundtrip segments_envelope_bytes deriveKey_drawn
      gcm_decrypt_sealed)

lemma encrypt_then_decrypt_eq:
  "encrypt_then_decrypt P text key rnd = Inr (utf8_decode (utf8_encode text))"
  by (simp add: encrypt_then_decrypt_def encrypt_eq decrypt_envelope)

text \<open>
  C1, as amended. For every plaintext without an unpaired surrogate, every key and
  every state of the entropy source, encryption succeeds and decrypting its envelope
  under the same key returns the plaintext.
\<close>

theorem decrypt_encrypt_well_formed:
  "well_formed text \<Longrightarrow> encrypt_then_decrypt P text key rnd = Inr text"
  by (simp add: encrypt_then_decrypt_eq utf8_roundtrip)

theorem decrypt_encrypt_well_formed_witness:
  "well_formed (ascii ''123-45-6789'')
   \<and> encrypt_then_decrypt sample_primitives (ascii ''123-45-6789'') (ascii ''secret'')
        sample_entropy = Inr (ascii ''123-45-6789'')"
proof -
  have w: "well_formed (ascii ''123-45-6789'')"
    by (simp add: well_formed_def ascii_def)
  show ?thesis
    using w decrypt_encrypt_well_formed [OF w, of sample_primitives "ascii ''secret''"
        sample_entropy]
    by simp
qed

text \<open>
  C1 as stated fails: the one-unit string holding the unpaired surrogate U+D800 is
  encrypted as the bytes of U+FFFD and comes back as U+FFFD.
\<close>

theorem decrypt_encrypt_lone_surrogate:
  "encrypt_then_decrypt sample_primitives [0xD800] (ascii ''secret'') sample_entropy
   = Inr [0xFFFD]"
  by (simp add: encrypt_then_decrypt_eq utf8_decode_def utf8_encode_def utf8_step_def
      utf8_decode_units.simps continuation_def second_ok_def)

text \<open>
  C4. Encryption returns the base64 text of salt, initialisation vector, tag and
  ciphertext in this order, of 64, 16 and 16 bytes and the length of the UTF-8
  plaintext. Decryption of any string derives its key from the bytes 0 to 64 of the
  decoded buffer and runs the cipher with the bytes 64 to 80 as initialisation
  vector, the bytes 80 to 96 as tag and the bytes from 96 on as ciphertext; the
  three lengths are the constants that encryption uses, and on a produced envelope
  the four slices are the four segments.
\<close>

theorem envelope_layout:
  "encrypt P text key rnd
     = Inr (base64_encode (drawn_salt rnd @ drawn_iv rnd @ sealed_tag P text key rnd
                            @ sealed P text key rnd), entropy_after rnd)
   \<and> length (drawn_salt rnd) = 64 \<and> length (drawn_iv rnd) = 16
   \<and> length (sealed_tag P text key rnd) = 16
   \<and> length (sealed P text key rnd) = length (utf8_encode text)
   \<and> envelope_segments buf
       = (take 64 buf, take 16 (drop 64 buf), take 16 (drop 80 buf), drop 96 buf)
   \<and> envelope_segments
        (base64_decode
          (base64_encode (drawn_salt rnd @ drawn_iv rnd @ sealed_tag P text key rnd
                          @ sealed P text key rnd)))
       = (drawn_salt rnd, drawn_iv rnd, sealed_tag P text key rnd, sealed P text key rnd)
   \<and> decrypt P s key
       = (case deriveKey P key (take 64 (base64_decode s)) of
            Inl e \<Rightarrow> Inl e
          | Inr derivedKey \<Rightarrow>
              (case gcm_decrypt P derivedKey (take 16 (drop 64 (base64_decode s)))
                      (take 16 (drop 80 (base64_decode s))) (drop 96 (base64_decode s)) of
                 Inl e \<Rightarrow> Inl e
               | Inr plaintext \<Rightarrow> Inr (utf8_decode plaintext)))
   \<and> SALT_LENGTH = 64 \<and> IV_LENGTH = 16 \<and> TAG_LENGTH = 16"
proof -
  have seg: "envelope_segments b
       = (take 64 b, take 16 (drop 64 b), take 16 (drop 80 b), drop 96 b)" for b
    by (simp add: envelope_segments_def slice_def slice_from_def SALT_LENGTH_def
        IV_LENGTH_def TAG_LENGTH_def)
  have dec: "decrypt P s key
       = (case deriveKey P key (take 64 (base64_decode s)) of
            Inl e \<Rightarrow> Inl e
          | Inr derivedKey \<Rightarrow>
              (case gcm_decrypt P derivedKey (take 16 (drop 64 (base64_decode s)))
                      (take 16 (drop 80 (base64_decode s))) (drop 96 (base64_decode s)) of
                 Inl e \<Rightarrow> Inl e
               | Inr plaintext \<Rightarrow> Inr (utf8_decode plaintext)))"
    by (simp add: decrypt_def seg Let_def)
  have enc: "encrypt P text key rnd
     = Inr (base64_encode (drawn_salt rnd @ drawn_iv rnd @ sealed_tag P text key rnd
                            @ sealed P text key rnd), entropy_after rnd)"
    using encrypt_eq [of P _ key rnd] by (simp add: envelope_bytes_def)
  have back_segments: "envelope_segments
        (base64_decode
          (base64_encode (drawn_salt rnd @ drawn_iv rnd @ sealed_tag P text key rnd
                          @ sealed P text key rnd)))
       = (drawn_salt rnd, drawn_iv rnd, sealed_tag P text key rnd, sealed P text key rnd)"
    using segments_envelope_bytes [of P _ key rnd]
    by (simp add: envelope_bytes_def base64_roundtrip)
  show ?thesis
    by (intro conjI enc back_segments dec seg length_drawn)
       (simp_all add: SALT_LENGTH_def IV_LENGTH_def TAG_LENGTH_def)
qed

text \<open>
  C7. The derived key is a function of the secret and the salt alone (the first 32
  bytes of the PBKDF2 stream for them at 100000 iterations), and the salt that
  decryption reads from a produced envelope is the salt of the encryption: the key
  derived while decrypting is the key that sealed the plaintext.
\<close>

theorem derived_key_regenerated:
  "deriveKey P key salt
     = Inr (map (pbkdf2_sha512 P (utf8_encode key) salt ITERATIONS) [0..<KEY_LENGTH])
   \<and> deriveKey P key (drawn_salt rnd) = Inr (derived P key rnd)
   \<and> sealed P text key rnd
       = keystream_xor P (derived P key rnd) (drawn_iv rnd) (utf8_encode text)
   \<and> encrypt P text key rnd
       = Inr (base64_encode (envelope_bytes P text key rnd), entropy_after rnd)
   \<and> deriveKey P key
        (fst (envelope_segments
               (base64_decode (base64_encode (envelope_bytes P text key rnd)))))
       = Inr (derived P key rnd)"
  by (simp add: encrypt_eq base64_roundtrip segments_envelope_bytes deriveKey_drawn
      sealed_def) (simp add: deriveKey_def pbkdf2_def ITERATIONS_def KEY_LENGTH_def)

text \<open>
  C8, as amended. The key derivation checks neither the secret nor the salt: for
  every secret and every salt, of any length, it returns a key of 32 bytes.
\<close>

theorem deriveKey_total:
  "\<exists>derivedKey. deriveKey P key salt = Inr derivedKey \<and> length derivedKey = 32"
  by (simp add: deriveKey_def pbkdf2_def ITERATIONS_def KEY_LENGTH_def)

text \<open>
  C8 as stated fails: the empty secret with a salt of three bytes yields a key.
\<close>

theorem deriveKey_empty_secret_short_salt:
  "deriveKey sample_primitives [] [1, 2, 3] = Inr (map of_nat [0..<32])"
  by (simp add: deriveKey_def pbkdf2_def ITERATIONS_def KEY_LENGTH_def
      sample_primitives_def utf8_encode_def)

lemma base64_encode_inj: "base64_encode a = base64_encode b \<Longrightarrow> a = b"
  by (metis base64_roundtrip)

text \<open>
  C6. Two calls of \<open>encrypt\<close> on the same plaintext and key whose draws of salt
  and initialisation vector differ return different envelope strings. Each call draws
  both afresh from the entropy source, so successive calls differ whenever the source
  does not repeat itself.
\<close>

theorem envelopes_differ:
  "encrypt P text key rnd = Inr (e1, r1) \<Longrightarrow> encrypt P text key rnd' = Inr (e2, r2) \<Longrightarrow>
   (drawn_salt rnd, drawn_iv rnd) \<noteq> (drawn_salt rnd', drawn_iv rnd') \<Longrightarrow> e1 \<noteq> e2"
proof
  assume 1: "encrypt P text key rnd = Inr (e1, r1)"
    and 2: "encrypt P text key rnd' = Inr (e2, r2)"
    and d: "(drawn_salt rnd, drawn_iv rnd) \<noteq> (drawn_salt rnd', drawn_iv rnd')"
    and e: "e1 = e2"
  have "base64_encode (envelope_bytes P text key rnd)
        = base64_encode (envelope_bytes P text key rnd')"
    using 1 2 e by (simp add: encrypt_eq)
  then have "envelope_bytes P text key rnd = envelope_bytes P text key rnd'"
    by (rule base64_encode_inj)
  then have "envelope_segments (envelope_bytes P text key rnd)
             = envelope_segments (envelope_bytes P text key rnd')"
    by simp
  then show False using d by (simp add: segments_envelope_bytes)
qed

lemma drawn_iv_first: "drawn_iv rnd ! 0 = rnd 0"
  by (simp add: drawn_iv_def randomBytes_def IV_LENGTH_def)

lemma entropy_after_apply: "entropy_after rnd i = rnd (80 + i)"
  by (simp add: entropy_after_def randomBytes_def IV_LENGTH_def SALT_LENGTH_def)

theorem envelopes_differ_witness:
  "encrypt sample_primitives (ascii ''123-45-6789'') (ascii ''secret'') sample_entropy
     = Inr (base64_encode (envelope_bytes sample_primitives (ascii ''123-45-6789'')
              (ascii ''secret'') sample_entropy), entropy_after sample_entropy)
   \<and> encrypt sample_primitives (ascii ''123-45-6789'') (ascii ''secret'')
         (entropy_after sample_entropy)
       = Inr (base64_encode (envelope_bytes sample_primitives (ascii ''123-45-6789'')
                (ascii ''secret'') (entropy_after sample_entropy)),
              entropy_after (entropy_after sample_entropy))
   \<and> (drawn_salt sample_entropy, drawn_iv sample_entropy)
       \<noteq> (drawn_salt (entropy_after sample_entropy), drawn_iv (entropy_after sample_entropy))
   \<and> base64_encode (envelope_bytes sample_primitives (ascii ''123-45-6789'')
        (ascii ''secret'') sample_entropy)
       \<noteq> base64_encode (envelope_bytes sample_primitives (ascii ''123-45-6789'')
            (ascii ''secret'') (entropy_after sample_entropy))"
proof -
  have "drawn_iv sample_entropy ! 0 \<noteq> drawn_iv (entropy_after sample_entropy) ! 0"
    by (simp add: drawn_iv_first entropy_after_apply sample_entropy_def)
  then have d: "(drawn_salt sample_entropy, drawn_iv sample_entropy)
       \<noteq> (drawn_salt (entropy_after sample_entropy), drawn_iv (entropy_after sample_entropy))"
    by auto
  show ?thesis
    using d envelopes_differ [OF encrypt_eq encrypt_eq d]
    by (simp add: encrypt_eq)
qed

lemma decrypt_segments:
  "envelope_segments (base64_decode s) = (salt, iv, tag, encrypted) \<Longrightarrow>
   decrypt P s key =
     (case deriveKey P key salt of
        Inl e \<Rightarrow> Inl e
      | Inr derivedKey \<Rightarrow>
          (case gcm_decrypt P derivedKey iv tag encrypted of
             Inl e \<Rightarrow> Inl e
           | Inr plaintext \<Rightarrow> Inr (utf8_decode plaintext)))"
  by (simp add: decrypt_def)

lemma deriveKey_eq:
  "deriveKey P key salt
   = Inr (map (pbkdf2_sha512 P (utf8_encode key) salt ITERATIONS) [0..<KEY_LENGTH])"
  by (simp add: deriveKey_def pbkdf2_def ITERATIONS_def KEY_LENGTH_def)

text \<open>
  C5, as amended. There is no length check in \<open>decrypt\<close>: a decoded input of at
  most 64 bytes leaves no initialisation vector and the cipher refuses it; a longer
  one below 96 bytes leaves a tag of fewer than 16 bytes, which \<open>setAuthTag\<close>
  refuses unless it has 4, 8 or 12 to 15 bytes (decoded lengths 84, 88, 92 to 95).
\<close>

theorem decrypt_short_envelope:
  "length (base64_decode s) < 96 \<Longrightarrow> length (base64_decode s) \<notin> {84, 88, 92, 93, 94, 95} \<Longrightarrow>
   decrypt P s key = Inl (if length (base64_decode s) \<le> 64 then InvalidIV else InvalidAuthTag)"
proof -
  assume short: "length (base64_decode s) < 96"
    and inv: "length (base64_decode s) \<notin> {84, 88, 92, 93, 94, 95}"
  let ?buf = "base64_decode s"
  obtain salt iv tag encrypted where
    seg: "envelope_segments ?buf = (salt, iv, tag, encrypted)"
    by (cases "envelope_segments ?buf") auto
  have iv: "iv = take 16 (drop 64 ?buf)" and tag: "tag = take 16 (drop 80 ?buf)"
    using seg
    by (simp_all add: envelope_segments_def slice_def slice_from_def SALT_LENGTH_def
        IV_LENGTH_def TAG_LENGTH_def)
  have k: "length (map (pbkdf2_sha512 P (utf8_encode key) salt ITERATIONS) [0..<KEY_LENGTH]) = 32"
    by (simp add: KEY_LENGTH_def)
  show ?thesis
  proof (cases "length ?buf \<le> 64")
    case True
    then have "iv = []" using iv by simp
    then show ?thesis
      using True k
      by (simp add: decrypt_segments [OF seg] deriveKey_eq gcm_decrypt_def
          check_cipher_args_def del: length_map)
  next
    case False
    then have "iv \<noteq> []" using iv by simp
    moreover have "length tag = length ?buf - 80" using tag short by simp
    then have "\<not> valid_tag_length (length tag)"
      using short inv by (auto simp: valid_tag_length_def)
    ultimately show ?thesis
      using False k
      by (simp add: decrypt_segments [OF seg] deriveKey_eq gcm_decrypt_def
          check_cipher_args_def del: length_map)
  qed
qed

text \<open>
  For the decoded lengths 84, 88 and 92 to 95 the cut tag has a length that
  \<open>setAuthTag\<close> accepts, the ciphertext is empty, and the outcome is that of
  comparing the cut tag with the leading bytes of the tag of the empty ciphertext.
\<close>

lemma decrypt_short_valid_tag_length:
  assumes "length (base64_decode s) \<in> {84, 88, 92, 93, 94, 95}"
  shows "decrypt P s key =
     (if take (length (base64_decode s) - 80)
           (tag_of P (map (pbkdf2_sha512 P (utf8_encode key) (take 64 (base64_decode s))
                        ITERATIONS) [0..<KEY_LENGTH])
              (take 16 (drop 64 (base64_decode s))) [])
         = drop 80 (base64_decode s)
      then Inr [] else Inl AuthenticationFailed)"
proof -
  let ?buf = "base64_decode s"
  have seg: "envelope_segments ?buf
       = (take 64 ?buf, take 16 (drop 64 ?buf), take 16 (drop 80 ?buf), drop 96 ?buf)"
    by (simp add: envelope_segments_def slice_def slice_from_def SALT_LENGTH_def
        IV_LENGTH_def TAG_LENGTH_def)
  have len: "84 \<le> length ?buf" "length ?buf < 96" using assms by auto
  have iv: "take 16 (drop 64 ?buf) \<noteq> []" using len by simp
  have tag: "take 16 (drop 80 ?buf) = drop 80 ?buf" using len by simp
  have tl: "length (drop 80 ?buf) = length ?buf - 80" by simp
  have v: "valid_tag_length (length ?buf - 80)"
    using assms by (auto simp: valid_tag_length_def)
  have c: "drop 96 ?buf = []" using len by simp
  have k: "length (map (pbkdf2_sha512 P (utf8_encode key) (take 64 ?buf) ITERATIONS)
             [0..<KEY_LENGTH]) = 32"
    by (simp add: KEY_LENGTH_def)
  show ?thesis
    unfolding decrypt_segments [OF seg] deriveKey_eq tag c
    using iv v k
    by (simp add: gcm_decrypt_def check_cipher_args_def keystream_xor_def utf8_decode_def
        tl Let_def del: length_map length_drop)
qed

lemma base64_decode_AAAA: "base64_decode (ascii ''AAAA'') = [0, 0, 0]"
  by (simp add: base64_decode_def ascii_def b64_sextets_def unbase64_def
      List.map_filter_simps)

theorem decrypt_short_envelope_witness:
  "length (base64_decode (ascii ''AAAA'')) < 96
   \<and> length (base64_decode (ascii ''AAAA'')) \<notin> {84, 88, 92, 93, 94, 95}
   \<and> decrypt sample_primitives (ascii ''AAAA'') (ascii ''secret'') = Inl InvalidIV"
proof -
  have l: "length (base64_decode (ascii ''AAAA'')) < 96"
    and n: "length (base64_decode (ascii ''AAAA'')) \<notin> {84, 88, 92, 93, 94, 95}"
    by (simp_all add: base64_decode_AAAA)
  show ?thesis
    using l n decrypt_short_envelope [OF l n, of sample_primitives "ascii ''secret''"]
    by (simp add: base64_decode_AAAA)
qed

lemma length_tag_of [simp]: "length (tag_of P k iv c) = 16"
  by (simp add: tag_of_def)

lemma sealed_empty: "sealed P [] key rnd = []"
  by (simp add: sealed_def keystream_xor_def utf8_encode_def)

lemma decrypt_truncated:
  "decrypt P (base64_encode (take 92 (envelope_bytes P [] key rnd))) key = Inr []"
proof -
  let ?tag = "sealed_tag P [] key rnd"
  have b: "take 92 (envelope_bytes P [] key rnd) = drawn_salt rnd @ drawn_iv rnd @ take 12 ?tag"
    by (simp add: envelope_bytes_def sealed_empty)
  have seg: "envelope_segments (base64_decode (base64_encode (take 92 (envelope_bytes P [] key rnd))))
             = (drawn_salt rnd, drawn_iv rnd, take 12 ?tag, [])"
    unfolding base64_roundtrip b
    by (simp add: envelope_segments_def slice_def slice_from_def SALT_LENGTH_def
        IV_LENGTH_def TAG_LENGTH_def)
  have iv: "drawn_iv rnd \<noteq> []"
    using length_drawn(2) [of rnd] by (cases "drawn_iv rnd") simp_all
  have g: "gcm_decrypt P (derived P key rnd) (drawn_iv rnd) (take 12 ?tag) [] = Inr []"
    using iv
    by (simp add: gcm_decrypt_def check_cipher_args_def valid_tag_length_def
        sealed_tag_def sealed_empty keystream_xor_def Let_def)
  show ?thesis
    by (simp add: decrypt_segments [OF seg] deriveKey_drawn g utf8_decode_def)
qed

text \<open>
  C5 as stated fails: the envelope of the empty plaintext cut to 92 bytes, four
  bytes short of the three fixed segments, is not rejected: its 12 tag bytes
  verify, and decryption returns the empty plaintext.
\<close>

theorem decrypt_truncated_envelope:
  "length (base64_decode (base64_encode
      (take 92 (envelope_bytes sample_primitives [] (ascii ''secret'') sample_entropy)))) = 92
   \<and> decrypt sample_primitives
        (base64_encode
          (take 92 (envelope_bytes sample_primitives [] (ascii ''secret'') sample_entropy)))
        (ascii ''secret'') = Inr []"
proof -
  have "length (take 92 (envelope_bytes sample_primitives [] (ascii ''secret'') sample_entropy))
        = 92"
    by (simp add: envelope_bytes_def)
  then show ?thesis
    by (simp only: decrypt_truncated base64_roundtrip simp_thms)
qed

lemma gcm_decrypt_bad_tag:
  "length k = 32 \<Longrightarrow> iv \<noteq> [] \<Longrightarrow> length tag = 16 \<Longrightarrow> tag_of P k iv c \<noteq> tag \<Longrightarrow>
   gcm_decrypt P k iv tag c = Inl AuthenticationFailed"
  by (simp add: gcm_decrypt_def check_cipher_args_def valid_tag_length_def Let_def)

lemma decrypt_bad_tag:
  assumes "length tag = 16"
    and "tag_of P (derived P key rnd) (drawn_iv rnd) c \<noteq> tag"
  shows "decrypt P (base64_encode (drawn_salt rnd @ drawn_iv rnd @ tag @ c)) key
         = Inl AuthenticationFailed"
proof -
  have seg: "envelope_segments
               (base64_decode (base64_encode (drawn_salt rnd @ drawn_iv rnd @ tag @ c)))
             = (drawn_salt rnd, drawn_iv rnd, tag, c)"
    unfolding base64_roundtrip using assms(1) by (simp add: segments_of_parts)
  have iv: "drawn_iv rnd \<noteq> []"
    using length_drawn(2) [of rnd] by (cases "drawn_iv rnd") simp_all
  show ?thesis
    by (simp add: decrypt_segments [OF seg] deriveKey_drawn
        gcm_decrypt_bad_tag [OF length_drawn(4) iv assms])
qed

lemma past_salt_and_iv:
  assumes "length salt = 64" "length iv = 16" "80 \<le> i"
  shows "(salt @ iv @ r)[i := x] = salt @ iv @ r[i - 80 := x]"
    and "(salt @ iv @ r) ! i = r ! (i - 80)"
proof -
  have 1: "\<not> i < length salt" "\<not> i - length salt < length iv"
    "i - length salt - length iv = i - 80"
    using assms by simp_all
  show "(salt @ iv @ r)[i := x] = salt @ iv @ r[i - 80 := x]"
    by (simp only: list_update_append 1 if_False)
  show "(salt @ iv @ r) ! i = r ! (i - 80)"
    by (simp only: nth_append 1 if_False)
qed

text \<open>
  Changes to a produced envelope. A changed byte of the tag segment (decoded offsets
  80 to 95) makes decryption under the same key fail with the authentication error,
  whatever the primitives are.
\<close>

lemma tampered_tag_rejected:
  assumes "encrypt P text key rnd = Inr (envelope, rnd')"
    and "80 \<le> i" and "i < 96"
    and "b \<noteq> base64_decode envelope ! i"
  shows "decrypt P (base64_encode ((base64_decode envelope)[i := b])) key
         = Inl AuthenticationFailed"
proof -
  let ?salt = "drawn_salt rnd" and ?iv = "drawn_iv rnd"
  let ?tag = "sealed_tag P text key rnd" and ?c = "sealed P text key rnd"
  let ?j = "i - 80"
  have buf: "base64_decode envelope = ?salt @ ?iv @ ?tag @ ?c"
    using assms(1) by (auto simp: encrypt_eq base64_roundtrip envelope_bytes_def)
  have j: "?j < 16" using assms(2,3) by simp
  have upd: "(base64_decode envelope)[i := b] = ?salt @ ?iv @ ?tag[?j := b] @ ?c"
    unfolding buf past_salt_and_iv(1) [OF length_drawn(1,2) assms(2)]
    using j by (simp add: list_update_append)
  have "(?salt @ ?iv @ ?tag @ ?c) ! i = ?tag ! ?j"
    unfolding past_salt_and_iv(2) [OF length_drawn(1,2) assms(2)]
    using j by (simp add: nth_append)
  then have "b \<noteq> ?tag ! ?j" using assms(4) buf by simp
  then have "?tag[?j := b] ! ?j \<noteq> ?tag ! ?j" using j by simp
  then have ne: "tag_of P (derived P key rnd) ?iv ?c \<noteq> ?tag[?j := b]"
    unfolding sealed_tag_def [symmetric] by metis
  show ?thesis
    unfolding upd by (rule decrypt_bad_tag [OF _ ne]) simp
qed

text \<open>
  A changed byte of the ciphertext segment (decoded offsets from 96 on) makes
  decryption fail with the authentication error when the tag of the changed
  ciphertext is not the tag in the envelope. Whether it is, is decided by the
  cipher's tag alone: the source compares nothing else.
\<close>

lemma tampered_ciphertext_rejected:
  assumes "encrypt P text key rnd = Inr (envelope, rnd')"
    and "96 \<le> i" and "i < length (base64_decode envelope)"
    and "tag_of P (derived P key rnd) (drawn_iv rnd) ((sealed P text key rnd)[i - 96 := b])
         \<noteq> sealed_tag P text key rnd"
  shows "decrypt P (base64_encode ((base64_decode envelope)[i := b])) key
         = Inl AuthenticationFailed"
proof -
  let ?salt = "drawn_salt rnd" and ?iv = "drawn_iv rnd"
  let ?tag = "sealed_tag P text key rnd" and ?c = "sealed P text key rnd"
  let ?j = "i - 96"
  have buf: "base64_decode envelope = ?salt @ ?iv @ ?tag @ ?c"
    using assms(1) by (auto simp: encrypt_eq base64_roundtrip envelope_bytes_def)
  have i: "80 \<le> i" using assms(2) by simp
  have k: "\<not> i - 80 < 16" "i - 80 - 16 = i - 96" using assms(2) by simp_all
  have upd: "(base64_decode envelope)[i := b] = ?salt @ ?iv @ ?tag @ ?c[?j := b]"
    unfolding buf past_salt_and_iv(1) [OF length_drawn(1,2) i]
    using k by (simp add: list_update_append)
  show ?thesis
    unfolding upd by (rule decrypt_bad_tag [OF _ assms(4)]) simp
qed

text \<open>
  Decryption returns a plaintext only for a buffer whose tag segment is the leading
  bytes of the tag computed from its own ciphertext segment.
\<close>

lemma decrypt_only_authentic:
  assumes "decrypt P s key = Inr plaintext"
  shows "\<exists>derivedKey.
           deriveKey P key (take 64 (base64_decode s)) = Inr derivedKey
           \<and> take (length (take 16 (drop 80 (base64_decode s))))
                (tag_of P derivedKey (take 16 (drop 64 (base64_decode s)))
                   (drop 96 (base64_decode s)))
               = take 16 (drop 80 (base64_decode s))"
proof -
  have seg: "envelope_segments (base64_decode s)
       = (take 64 (base64_decode s), take 16 (drop 64 (base64_decode s)),
          take 16 (drop 80 (base64_decode s)), drop 96 (base64_decode s))"
    by (simp add: envelope_segments_def slice_def slice_from_def SALT_LENGTH_def
        IV_LENGTH_def TAG_LENGTH_def)
  show ?thesis
    using assms unfolding decrypt_segments [OF seg]
    by (auto simp: gcm_decrypt_def Let_def split: sum.splits option.splits if_splits)
qed

lemma sample_tag_detects:
  assumes "j < length c" "j < 16" "x \<noteq> c ! j"
  shows "tag_of sample_primitives k iv (c[j := x]) \<noteq> tag_of sample_primitives k iv c"
proof
  assume "tag_of sample_primitives k iv (c[j := x]) = tag_of sample_primitives k iv c"
  then have "tag_of sample_primitives k iv (c[j := x]) ! j = tag_of sample_primitives k iv c ! j"
    by simp
  then show False
    using assms by (simp add: tag_of_def sample_primitives_def)
qed

lemma sealed_sample_A:
  "sealed sample_primitives (ascii ''A'') (ascii ''secret'') sample_entropy = [66]"
  by (simp add: sealed_def keystream_xor_def utf8_encode_def ascii_def sample_primitives_def)

lemma tampered_ciphertext_rejected_sample:
  "decrypt sample_primitives
     (base64_encode
       ((base64_decode (base64_encode (envelope_bytes sample_primitives
           (ascii ''A'') (ascii ''secret'') sample_entropy)))[96 := 0]))
     (ascii ''secret'')
   = Inl AuthenticationFailed"
proof -
  let ?env = "base64_encode (envelope_bytes sample_primitives (ascii ''A'') (ascii ''secret'')
                sample_entropy)"
  let ?c = "sealed sample_primitives (ascii ''A'') (ascii ''secret'') sample_entropy"
  have e: "encrypt sample_primitives (ascii ''A'') (ascii ''secret'') sample_entropy
           = Inr (?env, entropy_after sample_entropy)"
    by (rule encrypt_eq)
  have l: "96 < length (base64_decode ?env)"
    by (simp add: base64_roundtrip envelope_bytes_def sealed_sample_A)
  have "tag_of sample_primitives
          (derived sample_primitives (ascii ''secret'') sample_entropy)
          (drawn_iv sample_entropy) (?c[0 := 0])
        \<noteq> tag_of sample_primitives
          (derived sample_primitives (ascii ''secret'') sample_entropy)
          (drawn_iv sample_entropy) ?c"
    by (intro sample_tag_detects) (simp_all add: sealed_sample_A)
  then have f: "tag_of sample_primitives
          (derived sample_primitives (ascii ''secret'') sample_entropy)
          (drawn_iv sample_entropy) (?c[96 - 96 := 0])
        \<noteq> sealed_tag sample_primitives (ascii ''A'') (ascii ''secret'') sample_entropy"
    by (simp add: sealed_tag_def)
  show ?thesis
    by (rule tampered_ciphertext_rejected [OF e order_refl l f])
qed

section \<open>Properties of the patient record functions\<close>

lemma decrypt_buffer_eq: "decrypt P s key = decrypt_buffer P (base64_decode s) key"
  by (simp add: decrypt_def decrypt_buffer_def)

lemma encrypt_any_Some:
  "encrypt_any P (Some t) key rnd
   = Inr (base64_encode (envelope_bytes P t key rnd), entropy_after rnd)"
  by (simp add: encrypt_any_def encrypt_eq)

lemma decrypt_any_envelope:
  "decrypt_any P J (String (base64_encode (envelope_bytes P t key rnd))) key
   = Inr (utf8_decode (utf8_encode t))"
  by (simp add: decrypt_any_def decrypt_envelope)

lemma Patient_encrypt_frame:
  "Patient_encrypt P J KEY q r = Inr (q', r') \<Longrightarrow> k \<noteq> ''ssn'' \<Longrightarrow> k \<noteq> ''medicalHistory'' \<Longrightarrow>
   q' k = q k"
  by (auto simp: Patient_encrypt_def split: sum.splits prod.splits)

lemma Patient_decrypt_frame:
  "Patient_decrypt P J KEY q = Inr q' \<Longrightarrow> k \<noteq> ''ssn'' \<Longrightarrow> k \<noteq> ''medicalHistory'' \<Longrightarrow>
   q' k = q k"
  by (auto simp: Patient_decrypt_def split: sum.splits)

lemma patient_restored:
  assumes "patient ''ssn'' = Some (String ssn)"
    and "patient ''medicalHistory'' = Some history"
  shows "(patient(''ssn'' \<mapsto> String e1, ''medicalHistory'' \<mapsto> String e2))
           (''ssn'' \<mapsto> String ssn, ''medicalHistory'' \<mapsto> history) = patient"
proof (rule ext)
  fix k
  show "((patient(''ssn'' \<mapsto> String e1, ''medicalHistory'' \<mapsto> String e2))
           (''ssn'' \<mapsto> String ssn, ''medicalHistory'' \<mapsto> history)) k = patient k"
    using assms by (cases "k = ''ssn''"; cases "k = ''medicalHistory''") simp_all
qed


lemma Patient_encrypt_eq:
  assumes "patient ''ssn'' = Some (String ssn)" and "well_formed ssn"
    and "patient ''medicalHistory'' = Some history" and "history \<noteq> Undefined"
    and "well_formed (json_text J history)"
    and "json_parse J (json_text J history) = Some history"
  shows "Patient_encrypt P J KEY patient rnd
           = Inr (patient(''ssn'' \<mapsto> String (base64_encode (envelope_bytes P ssn KEY rnd)),
                          ''medicalHistory'' \<mapsto> String (base64_encode
                             (envelope_bytes P (json_text J history) KEY (entropy_after rnd)))),
                  entropy_after (entropy_after rnd))"
proof -
  have s: "string_of (get patient ''ssn'') = Some ssn"
    using assms(1) by (simp add: get_def string_of_def)
  have h: "JSON_stringify J (get patient ''medicalHistory'') = Some (json_text J history)"
    using assms(3,4) by (cases history) (simp_all add: get_def JSON_stringify_def)
  show ?thesis
    by (simp add: Patient_encrypt_def s h encrypt_any_Some)
qed

lemma Patient_decrypt_envelopes:
  assumes "patient ''ssn'' = Some (String ssn)" and "well_formed ssn"
    and "patient ''medicalHistory'' = Some history"
    and "well_formed text"
    and "json_parse J text = Some history"
  shows "Patient_decrypt P J KEY
           (patient(''ssn'' \<mapsto> String (base64_encode (envelope_bytes P ssn KEY rnd)),
                    ''medicalHistory'' \<mapsto> String (base64_encode
                             (envelope_bytes P text KEY rnd1))))
         = Inr patient"
proof -
  let ?e1 = "base64_encode (envelope_bytes P ssn KEY rnd)"
  let ?e2 = "base64_encode (envelope_bytes P text KEY rnd1)"
  let ?q = "patient(''ssn'' \<mapsto> String ?e1, ''medicalHistory'' \<mapsto> String ?e2)"
  have g: "get ?q ''ssn'' = String ?e1" "get ?q ''medicalHistory'' = String ?e2"
    by (simp_all add: get_def)
  have 1: "decrypt_any P J (String ?e1) KEY = Inr ssn"
    using assms(2) by (simp only: decrypt_any_envelope utf8_roundtrip)
  have 2: "decrypt_any P J (String ?e2) KEY = Inr text"
    using assms(4) by (simp only: decrypt_any_envelope utf8_roundtrip)
  have 3: "JSON_parse J text = Inr history"
    using assms(5) by (simp add: JSON_parse_def)
  show ?thesis
    unfolding Patient_decrypt_def g
    by (simp only: 1 2 3 sum.case patient_restored [OF assms(1,3)])
qed


text \<open>
  C10, as amended. Take a record whose \<open>ssn\<close> is a string without unpaired
  surrogates and whose \<open>medicalHistory\<close> is a value other than \<open>undefined\<close> that
  \<open>JSON.parse\<close> reads back from its \<open>JSON.stringify\<close> text. Then
  \<open>Patient.encrypt\<close> succeeds and returns the record with these two properties
  replaced by envelope strings, and \<open>Patient.decrypt\<close> of that record returns the
  original record. Whenever either function returns a record, every property other
  than \<open>ssn\<close> and \<open>medicalHistory\<close> is the one of its argument.
\<close>

theorem patient_roundtrip:
  assumes "patient ''ssn'' = Some (String ssn)" and "well_formed ssn"
    and "patient ''medicalHistory'' = Some history" and "history \<noteq> Undefined"
    and "well_formed (json_text J history)"
    and "json_parse J (json_text J history) = Some history"
  shows "(\<exists>e1 e2 rnd'.
            Patient_encrypt P J KEY patient rnd
              = Inr (patient(''ssn'' \<mapsto> String e1, ''medicalHistory'' \<mapsto> String e2), rnd')
            \<and> Patient_decrypt P J KEY
                  (patient(''ssn'' \<mapsto> String e1, ''medicalHistory'' \<mapsto> String e2))
                = Inr patient)
         \<and> (\<forall>q q' r r' k. Patient_encrypt P J KEY q r = Inr (q', r') \<longrightarrow>
                k \<noteq> ''ssn'' \<longrightarrow> k \<noteq> ''medicalHistory'' \<longrightarrow> q' k = q k)
         \<and> (\<forall>q q' k. Patient_decrypt P J KEY q = Inr q' \<longrightarrow>
                k \<noteq> ''ssn'' \<longrightarrow> k \<noteq> ''medicalHistory'' \<longrightarrow> q' k = q k)"
proof (intro conjI allI impI)
  show "\<exists>e1 e2 rnd'.
            Patient_encrypt P J KEY patient rnd
              = Inr (patient(''ssn'' \<mapsto> String e1, ''medicalHistory'' \<mapsto> String e2), rnd')
            \<and> Patient_decrypt P J KEY
                  (patient(''ssn'' \<mapsto> String e1, ''medicalHistory'' \<mapsto> String e2))
                = Inr patient"
    using Patient_encrypt_eq [OF assms, of P KEY rnd]
      Patient_decrypt_envelopes [OF assms(1,2,3,5,6), of P KEY rnd "entropy_after rnd"]
    by (intro exI conjI)
next
  fix q q' :: "'a js_object" and r r' k
  assume "Patient_encrypt P J KEY q r = Inr (q', r')" "k \<noteq> ''ssn''" "k \<noteq> ''medicalHistory''"
  then show "q' k = q k" by (rule Patient_encrypt_frame)
next
  fix q q' :: "'a js_object" and k
  assume "Patient_decrypt P J KEY q = Inr q'" "k \<noteq> ''ssn''" "k \<noteq> ''medicalHistory''"
  then show "q' k = q k" by (rule Patient_decrypt_frame)
qed

theorem patient_roundtrip_witness:
  "sample_patient ''ssn'' = Some (String (ascii ''123-45-6789''))
   \<and> well_formed (ascii ''123-45-6789'')
   \<and> sample_patient ''medicalHistory'' = Some (Other ())
   \<and> Other () \<noteq> (Undefined :: unit js_data)
   \<and> well_formed (json_text sample_json (Other ()))
   \<and> json_parse sample_json (json_text sample_json (Other ())) = Some (Other ())
   \<and> (\<exists>e1 e2 rnd'.
         Patient_encrypt sample_primitives sample_json (ascii ''secret'') sample_patient
             sample_entropy
           = Inr (sample_patient(''ssn'' \<mapsto> String e1, ''medicalHistory'' \<mapsto> String e2), rnd')
         \<and> Patient_decrypt sample_primitives sample_json (ascii ''secret'')
               (sample_patient(''ssn'' \<mapsto> String e1, ''medicalHistory'' \<mapsto> String e2))
             = Inr sample_patient)"
proof -
  have 1: "sample_patient ''ssn'' = Some (String (ascii ''123-45-6789''))"
    and 3: "sample_patient ''medicalHistory'' = Some (Other ())"
    by (simp_all add: sample_patient_def)
  have 2: "well_formed (ascii ''123-45-6789'')"
    by (simp add: well_formed_def ascii_def)
  have 4: "Other () \<noteq> (Undefined :: unit js_data)" by simp
  have 5: "well_formed (json_text sample_json (Other ()))"
    by (simp add: sample_json_def well_formed_def ascii_def)
  have 6: "json_parse sample_json (json_text sample_json (Other ())) = Some (Other ())"
    by (simp add: sample_json_def)
  show ?thesis
    using 1 2 3 4 5 6
      patient_roundtrip [OF 1 2 3 4 5 6, of sample_primitives "ascii ''secret''"
        sample_entropy, THEN conjunct1]
    by simp
qed

text \<open>
  C10 as stated fails: for a record with an \<open>ssn\<close> and no \<open>medicalHistory\<close>,
  \<open>JSON.stringify\<close> gives \<open>undefined\<close>, the cipher refuses it, and
  \<open>Patient.encrypt\<close> rejects with a \<open>TypeError\<close> instead of returning a record.
\<close>

theorem patient_without_history_rejected:
  "Patient_encrypt sample_primitives sample_json (ascii ''secret'')
     [''firstName'' \<mapsto> String (ascii ''Ann''), ''ssn'' \<mapsto> String (ascii ''123-45-6789'')]
     sample_entropy
   = Inl InvalidArgType"
  by (simp add: Patient_encrypt_def get_def string_of_def JSON_stringify_def
      encrypt_any_def encrypt_eq)

end

